theory Spec2Isabelle
  imports Complex_Main
begin

section \<open>JavaScript values and array operations\<close>

text \<open>
  The extraction scripts of \<^verbatim>\<open>profiler.ts\<close> run inside the page and read the object graph of
  the profiler web application. JavaScript numbers are modelled as real numbers: rounding,
  \<^verbatim>\<open>NaN\<close> and the infinities of IEEE doubles are outside the model. The scripts return
  \<^verbatim>\<open>JSON.stringify\<close> of their result and the caller applies \<^verbatim>\<open>JSON.parse\<close>; on the values of
  the model that round trip is the identity and is left out.
\<close>

type_synonym number = real

text \<open>A field of a marker payload: the primitive values a script can meet there.\<close>

datatype jsval = JUndefined | JNull | JBool bool | JNum number | JStr string

text \<open>Truthiness, as used by \<^verbatim>\<open>!x\<close>, \<^verbatim>\<open>x && y\<close>, \<^verbatim>\<open>x || y\<close> and \<^verbatim>\<open>if (x)\<close>.\<close>

fun truthy :: "jsval \<Rightarrow> bool" where
  "truthy JUndefined = False"
| "truthy JNull = False"
| "truthy (JBool b) = b"
| "truthy (JNum x) = (x \<noteq> 0)"
| "truthy (JStr s) = (s \<noteq> [])"

text \<open>
  A field that holds a number or is absent (\<^verbatim>\<open>null\<close> or \<^verbatim>\<open>undefined\<close>) is a
  \<^typ>\<open>number option\<close>; it is truthy when present and not zero.
\<close>

fun num_truthy :: "number option \<Rightarrow> bool" where
  "num_truthy None = False"
| "num_truthy (Some x) = (x \<noteq> 0)"

text \<open>\<^verbatim>\<open>x || d\<close> for such a field and a number \<^verbatim>\<open>d\<close>.\<close>

fun num_or :: "number option \<Rightarrow> number \<Rightarrow> number" where
  "num_or None d = d"
| "num_or (Some x) d = (if x \<noteq> 0 then x else d)"

text \<open>A string field that may be absent is truthy when present and not empty.\<close>

fun str_truthy :: "string option \<Rightarrow> bool" where
  "str_truthy None = False"
| "str_truthy (Some s) = (s \<noteq> [])"

text \<open>
  \<^verbatim>\<open>Array.prototype.sort(cmp)\<close> is a stable sort. For a consistent comparator the result is
  determined by the specification of the language, whatever algorithm the engine uses, and
  is the one a stable insertion sort computes: an element is placed before the first
  element it does not compare greater than.
\<close>

fun insort_cmp :: "('a \<Rightarrow> 'a \<Rightarrow> number) \<Rightarrow> 'a \<Rightarrow> 'a list \<Rightarrow> 'a list" where
  "insort_cmp cmp x [] = [x]"
| "insort_cmp cmp x (y # ys) =
     (if cmp x y \<le> 0 then x # y # ys else y # insort_cmp cmp x ys)"

definition sort_cmp :: "('a \<Rightarrow> 'a \<Rightarrow> number) \<Rightarrow> 'a list \<Rightarrow> 'a list" where
  "sort_cmp cmp xs = foldr (insort_cmp cmp) xs []"




section \<open>The call tree\<close>

text \<open>
  The web application exposes its call tree as \<^verbatim>\<open>callTree.getRoots()\<close>,
  \<^verbatim>\<open>callTree.getNodeData(i)\<close> and \<^verbatim>\<open>callTree.getChildren(i)\<close> over node indexes. The call tree
  is a finite forest; a node index is modelled by the node it denotes, which carries its
  node data and its children. Either may be absent, and each field of the node data may
  be absent.
\<close>

record nodeData =
  funcName :: "string option"
  self :: "number option"
  nd_total :: "number option"

datatype callNode =
  CallNode (getNodeData: "nodeData option") (getChildren: "callNode list option")

text \<open>\<^verbatim>\<open>callTree.getRoots()\<close>: the root nodes, or nothing.\<close>

type_synonym callTree = "callNode list option"

record callPath =
  cp_stack :: "string list"
  samples :: number


text \<open>The guard \<^verbatim>\<open>!nodeData || !nodeData.funcName\<close> of the scripts, negated.\<close>

definition has_funcName :: "nodeData option \<Rightarrow> bool" where
  "has_funcName nd = (case nd of None \<Rightarrow> False | Some d \<Rightarrow> str_truthy (funcName d))"

text \<open>
  \<^verbatim>\<open>collectCallPaths(nodeIndex, currentPath)\<close>: one path per leaf below the node, each with the
  names from the node down to the leaf.
\<close>

fun collectCallPaths :: "callNode \<Rightarrow> string list \<Rightarrow> callPath list" where
  "collectCallPaths (CallNode nd ch) currentPath =
     (if \<not> has_funcName nd then []
      else
        let d = the nd;
            newPath = currentPath @ [the (funcName d)];
            leaf = [\<lparr>cp_stack = newPath, samples = num_or (nd_total d) (num_or (self d) 0)\<rparr>]
        in case ch of
             None \<Rightarrow> leaf
           | Some cs \<Rightarrow>
               if cs = [] then leaf
               else concat (map (\<lambda>child. collectCallPaths child newPath) cs))"




section \<open>The flamegraph\<close>

datatype flameNode =
  FlameNode (fn_name: string) (fn_selfTime: number) (fn_totalTime: number)
    (children: "flameNode list")

text \<open>The results a loop keeps after the test \<^verbatim>\<open>if (childNode)\<close>: those that are not \<^verbatim>\<open>null\<close>.\<close>

fun drop_nulls :: "'a option list \<Rightarrow> 'a list" where
  "drop_nulls [] = []"
| "drop_nulls (None # xs) = drop_nulls xs"
| "drop_nulls (Some x # xs) = x # drop_nulls xs"

text \<open>
  \<^verbatim>\<open>buildFlameTree(nodeIndex, currentDepth)\<close>, with the \<^verbatim>\<open>maxDepth\<close> of the enclosing script, a
  number or \<^verbatim>\<open>null\<close>.
\<close>

fun buildFlameTree :: "number option \<Rightarrow> callNode \<Rightarrow> nat \<Rightarrow> flameNode option" where
  "buildFlameTree maxDepth (CallNode nd ch) currentDepth =
     (if \<not> has_funcName nd then None
      else if (case maxDepth of None \<Rightarrow> False | Some m \<Rightarrow> m \<le> real currentDepth) then None
      else
        let d = the nd;
            kids =
              (case ch of
                 None \<Rightarrow> []
               | Some cs \<Rightarrow>
                   if cs = [] then []
                   else sort_cmp (\<lambda>a b. fn_totalTime b - fn_totalTime a)
                          (drop_nulls
                            (map (\<lambda>childIndex. buildFlameTree maxDepth childIndex (currentDepth + 1)) cs)))
        in Some (FlameNode (the (funcName d)) (num_or (self d) 0) (num_or (nd_total d) 0) kids))"

text \<open>The extraction script of \<^verbatim>\<open>getFlamegraphData\<close> and the \<^verbatim>\<open>roots\<close> the function returns.\<close>

definition getFlamegraphData :: "callTree \<Rightarrow> number option \<Rightarrow> flameNode list" where
  "getFlamegraphData ct maxDepth =
     (case ct of
        None \<Rightarrow> []
      | Some rootNodes \<Rightarrow>
          if rootNodes = [] then []
          else sort_cmp (\<lambda>a b. fn_totalTime b - fn_totalTime a)
                 (drop_nulls (map (\<lambda>rootNode. buildFlameTree maxDepth rootNode 0) rootNodes)))"

text \<open>Every node of a flame tree has its children in descending order of total time.\<close>

fun children_sorted :: "flameNode \<Rightarrow> bool" where
  "children_sorted (FlameNode n s t cs) =
     (sorted_wrt (\<lambda>a b. fn_totalTime b \<le> fn_totalTime a) cs \<and> list_all children_sorted cs)"

text \<open>The nodes of a flame tree at a depth, the root being at depth 0.\<close>

fun nodes_at :: "nat \<Rightarrow> flameNode \<Rightarrow> flameNode list" where
  "nodes_at 0 t = [t]"
| "nodes_at (Suc k) t = concat (map (nodes_at k) (children t))"

text \<open>
  The paths of names from the root of a flame tree to each of its nodes, and the paths
  from a call node down to each node reached through nodes that all have a function name.
\<close>

fun flame_paths :: "flameNode \<Rightarrow> string list list" where
  "flame_paths (FlameNode n s t cs) = [n] # map ((#) n) (concat (map flame_paths cs))"

fun named_paths :: "callNode \<Rightarrow> string list list" where
  "named_paths (CallNode nd ch) =
     (if \<not> has_funcName nd then []
      else [the (funcName (the nd))] #
           map ((#) (the (funcName (the nd))))
             (concat (map named_paths (case ch of None \<Rightarrow> [] | Some cs \<Rightarrow> cs))))"

section \<open>Markers\<close>

text \<open>
  A marker of \<^verbatim>\<open>window.filteredMarkers\<close>: its \<^verbatim>\<open>name\<close>, its \<^verbatim>\<open>start\<close> and \<^verbatim>\<open>end\<close> (a number, or
  absent), the \<^verbatim>\<open>startTime\<close> some scripts fall back to, and its payload \<^verbatim>\<open>data\<close>, absent or
  an object read field by field. A field the object does not have reads as
  \<^verbatim>\<open>undefined\<close>.
\<close>

record marker =
  m_name :: string
  m_start :: "number option"
  m_end :: "number option"
  m_startTime :: "number option"
  m_data :: "(string \<Rightarrow> jsval) option"

text \<open>
  \<^verbatim>\<open>stringTable.getString\<close> of the filtered thread, a function of the web application, taken
  as a parameter.
\<close>

type_synonym stringTable = "number \<Rightarrow> string"

text \<open>
  The display name of a marker as the specification words it: the marker's name, unless
  the payload exists and its \<^verbatim>\<open>name\<close> is defined; then that value itself when it is not a
  number, and the string the string table holds for it when it is a number.
\<close>

definition resolved_name :: "stringTable \<Rightarrow> marker \<Rightarrow> jsval" where
  "resolved_name st m =
     (if m_data m \<noteq> None \<and> the (m_data m) ''name'' \<noteq> JUndefined
      then (case the (m_data m) ''name'' of JNum i \<Rightarrow> JStr (st i) | v \<Rightarrow> v)
      else JStr (m_name m))"

text \<open>The resolution as \<^verbatim>\<open>getMarkerSummary\<close> writes it (lines 253 to 262).\<close>

definition markerName_summary :: "stringTable \<Rightarrow> marker \<Rightarrow> jsval" where
  "markerName_summary stringTable marker =
     (case m_data marker of
        None \<Rightarrow> JStr (m_name marker)
      | Some dat \<Rightarrow>
          (case dat ''name'' of
             JUndefined \<Rightarrow> JStr (m_name marker)
           | JNum dataName \<Rightarrow> JStr (stringTable dataName)
           | JNull \<Rightarrow> JNull
           | JBool b \<Rightarrow> JBool b
           | JStr dataName \<Rightarrow> JStr dataName))"

text \<open>The resolution as \<^verbatim>\<open>getPageLoadSummary\<close> writes it (lines 519 to 527).\<close>

definition markerName_pageLoad :: "stringTable \<Rightarrow> marker \<Rightarrow> jsval" where
  "markerName_pageLoad stringTable marker =
     (case m_data marker of
        None \<Rightarrow> JStr (m_name marker)
      | Some dat \<Rightarrow>
          (case dat ''name'' of
             JUndefined \<Rightarrow> JStr (m_name marker)
           | JNum dataName \<Rightarrow> JStr (stringTable dataName)
           | JNull \<Rightarrow> JNull
           | JBool b \<Rightarrow> JBool b
           | JStr dataName \<Rightarrow> JStr dataName))"

text \<open>The resolution as \<^verbatim>\<open>getNetworkResources\<close> writes it (lines 791 to 799).\<close>

definition markerName_network :: "stringTable \<Rightarrow> marker \<Rightarrow> jsval" where
  "markerName_network stringTable marker =
     (case m_data marker of
        None \<Rightarrow> JStr (m_name marker)
      | Some dat \<Rightarrow>
          (case dat ''name'' of
             JUndefined \<Rightarrow> JStr (m_name marker)
           | JNum dataName \<Rightarrow> JStr (stringTable dataName)
           | JNull \<Rightarrow> JNull
           | JBool b \<Rightarrow> JBool b
           | JStr dataName \<Rightarrow> JStr dataName))"

subsection \<open>Marker summary\<close>

text \<open>
  \<^verbatim>\<open>markerStats\<close> is a \<^verbatim>\<open>Map\<close> from marker name to the durations seen; a \<^verbatim>\<open>Map\<close> iterates in
  the order its keys were first set, so it is a list of entries. \<^verbatim>\<open>stats_push\<close> is the
  \<^verbatim>\<open>has\<close>, \<^verbatim>\<open>set\<close>, \<^verbatim>\<open>get\<close> and \<^verbatim>\<open>push\<close> at the end of the loop body.
\<close>

type_synonym markerStats = "(jsval \<times> number list) list"

fun stats_push :: "jsval \<Rightarrow> number \<Rightarrow> markerStats \<Rightarrow> markerStats" where
  "stats_push k d [] = [(k, [d])]"
| "stats_push k d ((k', ds) # rest) =
     (if k' = k then (k', ds @ [d]) # rest else (k', ds) # stats_push k d rest)"

fun collect_stats :: "stringTable \<Rightarrow> marker list \<Rightarrow> markerStats \<Rightarrow> markerStats" where
  "collect_stats stringTable [] markerStats = markerStats"
| "collect_stats stringTable (marker # rest) markerStats =
     (if \<not> num_truthy (m_start marker) \<or> \<not> num_truthy (m_end marker) \<or> m_end marker = None
      then collect_stats stringTable rest markerStats
      else
        let duration = the (m_end marker) - the (m_start marker)
        in if duration \<le> 0 then collect_stats stringTable rest markerStats
           else collect_stats stringTable rest
                  (stats_push (markerName_summary stringTable marker) duration markerStats))"

record markerSummary =
  ms_name :: jsval
  ms_count :: number
  totalDuration :: number
  avgDuration :: number
  minDuration :: number
  maxDuration :: number

text \<open>
  A script that calls a method on a value that does not have it stops with a
  \<^verbatim>\<open>TypeError\<close>, one that calls a function with more arguments than the engine takes with
  a \<^verbatim>\<open>RangeError\<close>; the function that evaluates the script then rejects.
\<close>

datatype error = TypeError | RangeError

text \<open>
  \<^verbatim>\<open>Math.min(...ds)\<close> and \<^verbatim>\<open>Math.max(...ds)\<close> pass every duration as an argument of its own.
  The number of arguments a call can take is a limit of the engine, about 125000 in the
  browser the scripts run in; it is the parameter \<^verbatim>\<open>argLimit\<close>. Of no argument the two
  functions are the infinities, which the model does not have and no group reaches, a group
  being created by its first duration; the model has 0 there.
\<close>

definition math_min :: "nat \<Rightarrow> number list \<Rightarrow> error + number" where
  "math_min argLimit ds =
     (if argLimit < length ds then Inl RangeError
      else Inr (case ds of [] \<Rightarrow> 0 | d # rest \<Rightarrow> foldl min d rest))"

definition math_max :: "nat \<Rightarrow> number list \<Rightarrow> error + number" where
  "math_max argLimit ds =
     (if argLimit < length ds then Inl RangeError
      else Inr (case ds of [] \<Rightarrow> 0 | d # rest \<Rightarrow> foldl max d rest))"

text \<open>The summary pushed for an entry, once its minimum and maximum are there.\<close>

definition mk_summary :: "jsval \<times> number list \<Rightarrow> number \<Rightarrow> number \<Rightarrow> markerSummary" where
  "mk_summary entry minD maxD =
     (let durations = snd entry;
          count = real (length durations);
          total = foldl (\<lambda>sum d. sum + d) 0 durations
      in \<lparr>ms_name = fst entry,
          ms_count = count,
          totalDuration = total,
          avgDuration = total / count,
          minDuration = minD,
          maxDuration = maxD\<rparr>)"

definition summarize :: "nat \<Rightarrow> jsval \<times> number list \<Rightarrow> error + markerSummary" where
  "summarize argLimit entry =
     (case math_min argLimit (snd entry) of
        Inl e \<Rightarrow> Inl e
      | Inr minD \<Rightarrow>
          (case math_max argLimit (snd entry) of
             Inl e \<Rightarrow> Inl e
           | Inr maxD \<Rightarrow> Inr (mk_summary entry minD maxD)))"

text \<open>
  The loop over the entries of \<^verbatim>\<open>markerStats\<close>, with \<^verbatim>\<open>summaries\<close> as accumulator; it stops at
  the first entry whose summary fails.
\<close>

fun summarize_all ::
  "nat \<Rightarrow> markerStats \<Rightarrow> markerSummary list \<Rightarrow> error + markerSummary list" where
  "summarize_all argLimit [] summaries = Inr summaries"
| "summarize_all argLimit (entry # rest) summaries =
     (case summarize argLimit entry of
        Inl e \<Rightarrow> Inl e
      | Inr summ \<Rightarrow> summarize_all argLimit rest (summaries @ [summ]))"

text \<open>The extraction script of \<^verbatim>\<open>getMarkerSummary\<close> and the \<^verbatim>\<open>summaries\<close> it returns.\<close>

definition getMarkerSummary ::
  "stringTable \<Rightarrow> nat \<Rightarrow> marker list \<Rightarrow> error + markerSummary list" where
  "getMarkerSummary stringTable argLimit filteredMarkers =
     (case summarize_all argLimit (collect_stats stringTable filteredMarkers []) [] of
        Inl e \<Rightarrow> Inl e
      | Inr summaries \<Rightarrow> Inr (sort_cmp (\<lambda>a b. ms_count b - ms_count a) summaries))"

text \<open>The summary of an entry, as the loop pushes it when the minimum and maximum return.\<close>

definition summary_of :: "jsval \<times> number list \<Rightarrow> markerSummary" where
  "summary_of entry =
     mk_summary entry
       (case snd entry of [] \<Rightarrow> 0 | d # rest \<Rightarrow> foldl min d rest)
       (case snd entry of [] \<Rightarrow> 0 | d # rest \<Rightarrow> foldl max d rest)"

text \<open>
  The markers the summary is about, in the words of the specification: a truthy start, a
  truthy end and a positive difference; and the durations of those that resolve to a name.
\<close>

definition has_duration :: "marker \<Rightarrow> bool" where
  "has_duration m =
     (num_truthy (m_start m) \<and> num_truthy (m_end m) \<and> 0 < the (m_end m) - the (m_start m))"

definition durations_of :: "stringTable \<Rightarrow> marker list \<Rightarrow> jsval \<Rightarrow> number list" where
  "durations_of st ms k =
     map (\<lambda>m. the (m_end m) - the (m_start m))
       (filter (\<lambda>m. has_duration m \<and> resolved_name st m = k) ms)"

subsection \<open>Network resources\<close>

text \<open>\<^verbatim>\<open>x || y\<close> on values.\<close>

definition js_or :: "jsval \<Rightarrow> jsval \<Rightarrow> jsval" where
  "js_or x y = (if truthy x then x else y)"

text \<open>\<^verbatim>\<open>marker.start || marker.startTime || 0\<close>.\<close>

definition start_of :: "marker \<Rightarrow> number" where
  "start_of marker = num_or (m_start marker) (num_or (m_startTime marker) 0)"

text \<open>
  The first loop of \<^verbatim>\<open>getNetworkResources\<close>: it leaves at the first marker named
  \<^verbatim>\<open>Navigation::Start\<close>, so \<^verbatim>\<open>navigationStart\<close> is \<^verbatim>\<open>null\<close> whenever the test is reached.
\<close>

fun find_navigationStart :: "stringTable \<Rightarrow> marker list \<Rightarrow> number option" where
  "find_navigationStart stringTable [] = None"
| "find_navigationStart stringTable (marker # rest) =
     (if markerName_network stringTable marker = JStr ''Navigation::Start''
      then Some (start_of marker)
      else find_navigationStart stringTable rest)"

definition ALL_NETWORK_PHASES_IN_ORDER :: "string list" where
  "ALL_NETWORK_PHASES_IN_ORDER =
     [''startTime'', ''domainLookupStart'', ''domainLookupEnd'', ''connectStart'',
      ''tcpConnectEnd'', ''secureConnectionStart'', ''connectEnd'', ''requestStart'',
      ''responseStart'', ''responseEnd'', ''endTime'']"

definition HUMAN_LABEL_FOR_PHASE :: "(string \<times> string) list" where
  "HUMAN_LABEL_FOR_PHASE =
     [(''startTime'', ''Waiting for socket thread''),
      (''domainLookupStart'', ''DNS request''),
      (''domainLookupEnd'', ''After DNS request''),
      (''connectStart'', ''TCP connection''),
      (''tcpConnectEnd'', ''After TCP connection''),
      (''secureConnectionStart'', ''Establishing TLS session''),
      (''connectEnd'', ''Waiting for HTTP request''),
      (''requestStart'', ''HTTP request and waiting for response''),
      (''responseStart'', ''HTTP response''),
      (''responseEnd'', ''Waiting for main thread''),
      (''endTime'', ''End'')]"

text \<open>
  \<^verbatim>\<open>HUMAN_LABEL_FOR_PHASE[phase]\<close>. The scripts look up phases of the list above only; any
  other key would read \<^verbatim>\<open>undefined\<close>, which as a property key is the string below.
\<close>

definition human_label :: "string \<Rightarrow> string" where
  "human_label phase =
     (case map_of HUMAN_LABEL_FOR_PHASE phase of Some l \<Rightarrow> l | None \<Rightarrow> ''undefined'')"

text \<open>The loop that fills \<^verbatim>\<open>availablePhases\<close>: the phases whose field is a number.\<close>

fun availablePhases :: "(string \<Rightarrow> jsval) \<Rightarrow> string list \<Rightarrow> (string \<times> number) list" where
  "availablePhases dat [] = []"
| "availablePhases dat (phase # rest) =
     (case dat phase of
        JNum v \<Rightarrow> (phase, v) # availablePhases dat rest
      | _ \<Rightarrow> availablePhases dat rest)"

record networkPhase =
  label :: string
  np_duration :: number

text \<open>
  \<^verbatim>\<open>phaseTotals\<close> is an object keyed by label; its keys keep the order of their first
  assignment. \<^verbatim>\<open>add_total\<close> is \<^verbatim>\<open>phaseTotals[label] = (phaseTotals[label] || 0) + d\<close>.
\<close>

type_synonym phaseTotals = "(string \<times> number) list"

fun add_total :: "string \<Rightarrow> number \<Rightarrow> phaseTotals \<Rightarrow> phaseTotals" where
  "add_total l d [] = [(l, 0 + d)]"
| "add_total l d ((k, v) # rest) =
     (if k = l then (k, num_or (Some v) 0 + d) # rest else (k, v) # add_total l d rest)"

text \<open>
  The loop over \<^verbatim>\<open>j\<close> from 1: each step looks at \<^verbatim>\<open>availablePhases[j - 1]\<close> and
  \<^verbatim>\<open>availablePhases[j]\<close>, pushes a phase and adds its duration to the totals.
\<close>

fun phase_loop ::
  "(string \<times> number) list \<Rightarrow> networkPhase list \<Rightarrow> phaseTotals \<Rightarrow> networkPhase list \<times> phaseTotals"
where
  "phase_loop (prevPhase # currPhase # rest) phs totals =
     (let phaseDuration = snd currPhase - snd prevPhase;
          l = human_label (fst prevPhase)
      in phase_loop (currPhase # rest)
           (phs @ [\<lparr>label = l, np_duration = phaseDuration\<rparr>])
           (add_total l phaseDuration totals))"
| "phase_loop [prevPhase] phs totals = (phs, totals)"
| "phase_loop [] phs totals = (phs, totals)"

record networkResourceTiming =
  url :: jsval
  startTime :: number
  duration :: number
  status :: jsval
  contentType :: jsval
  res_size :: jsval
  httpVersion :: jsval
  cache :: jsval
  phases :: "networkPhase list"

text \<open>The test of the second loop: a payload of type Network with status \<^verbatim>\<open>STATUS_STOP\<close>.\<close>

definition is_network_stop :: "marker \<Rightarrow> bool" where
  "is_network_stop marker =
     (case m_data marker of
        None \<Rightarrow> False
      | Some dat \<Rightarrow> dat ''type'' = JStr ''Network'' \<and> dat ''status'' = JStr ''STATUS_STOP'')"

text \<open>The resource the second loop builds from a marker that passes the test.\<close>

definition mk_resource ::
  "number option \<Rightarrow> marker \<Rightarrow> networkPhase list \<Rightarrow> networkResourceTiming" where
  "mk_resource navigationStart marker phs =
     (let dat = the (m_data marker);
          startT = num_or (m_start marker) 0;
          endT = num_or (m_end marker) startT
      in \<lparr>url = js_or (dat ''URI'') (JStr []),
          startTime = (case navigationStart of None \<Rightarrow> startT | Some nav \<Rightarrow> startT - nav),
          duration = endT - startT,
          status = js_or (dat ''status'') (JStr []),
          contentType = dat ''contentType'',
          res_size = dat ''count'',
          httpVersion = dat ''httpVersion'',
          cache = js_or (dat ''cache'') (JStr ''Unknown''),
          phases = phs\<rparr>)"

text \<open>
  The second loop of \<^verbatim>\<open>getNetworkResources\<close>, with \<^verbatim>\<open>resources\<close> and \<^verbatim>\<open>phaseTotals\<close> as
  accumulators. \<^verbatim>\<open>cacheStats\<close>, a count per value of \<^verbatim>\<open>cache\<close> that nothing else reads, is
  not part of the model.
\<close>

fun resource_loop ::
  "number option \<Rightarrow> marker list \<Rightarrow> networkResourceTiming list \<Rightarrow> phaseTotals \<Rightarrow>
   networkResourceTiming list \<times> phaseTotals"
where
  "resource_loop navigationStart [] rs totals = (rs, totals)"
| "resource_loop navigationStart (marker # rest) rs totals =
     (if \<not> is_network_stop marker then resource_loop navigationStart rest rs totals
      else
        let r = phase_loop
                  (availablePhases (the (m_data marker)) ALL_NETWORK_PHASES_IN_ORDER) [] totals
        in resource_loop navigationStart rest
             (rs @ [mk_resource navigationStart marker (fst r)]) (snd r))"

record networkResourceSummary =
  resources :: "networkResourceTiming list"
  totalResources :: number
  nr_phaseTotals :: phaseTotals

text \<open>The extraction script of \<^verbatim>\<open>getNetworkResources\<close> and the summary it returns.\<close>

definition getNetworkResources :: "stringTable \<Rightarrow> marker list \<Rightarrow> networkResourceSummary" where
  "getNetworkResources stringTable filteredMarkers =
     (let navigationStart = find_navigationStart stringTable filteredMarkers;
          r = resource_loop navigationStart filteredMarkers [] []
      in \<lparr>resources = sort_cmp (\<lambda>a b. startTime a - startTime b) (fst r),
          totalResources = real (length (fst r)),
          nr_phaseTotals = snd r\<rparr>)"

text \<open>
  The phases of a payload in the words of the specification: among the eleven timestamps in
  their fixed order those present as numbers, and for each two consecutive ones their
  difference, under the label of the earlier.
\<close>

definition present_phases :: "(string \<Rightarrow> jsval) \<Rightarrow> string list" where
  "present_phases dat =
     filter (\<lambda>p. case dat p of JNum v \<Rightarrow> True | _ \<Rightarrow> False) ALL_NETWORK_PHASES_IN_ORDER"

definition num_of :: "jsval \<Rightarrow> number" where
  "num_of v = (case v of JNum x \<Rightarrow> x | _ \<Rightarrow> 0)"

definition phases_of :: "(string \<Rightarrow> jsval) \<Rightarrow> networkPhase list" where
  "phases_of dat =
     map (\<lambda>(earlier, later).
            \<lparr>label = human_label earlier, np_duration = num_of (dat later) - num_of (dat earlier)\<rparr>)
       (zip (present_phases dat) (tl (present_phases dat)))"

text \<open>The sum of the durations recorded under a label in the phases of all resources.\<close>

definition label_sum :: "networkResourceTiming list \<Rightarrow> string \<Rightarrow> number" where
  "label_sum rs l =
     sum_list (map np_duration (filter (\<lambda>p. label p = l) (concat (map phases rs))))"

subsection \<open>String operations\<close>

text \<open>
  Strings are lists of characters. The patterns the scripts search for are ASCII, so the
  operations below agree with those of JavaScript on the encoded string.
\<close>

definition startsWith :: "string \<Rightarrow> string \<Rightarrow> bool" where
  "startsWith s p = (take (length p) s = p)"

definition endsWith :: "string \<Rightarrow> string \<Rightarrow> bool" where
  "endsWith s p = (length p \<le> length s \<and> drop (length s - length p) s = p)"

fun str_includes :: "string \<Rightarrow> string \<Rightarrow> bool" where
  "str_includes [] p = (p = [])"
| "str_includes (c # cs) p = (startsWith (c # cs) p \<or> str_includes cs p)"

text \<open>ASCII lower case, for the patterns with the flag \<^verbatim>\<open>i\<close>.\<close>

definition to_lower :: "char \<Rightarrow> char" where
  "to_lower c =
     (case map_of (zip ''ABCDEFGHIJKLMNOPQRSTUVWXYZ'' ''abcdefghijklmnopqrstuvwxyz'') c of
        Some l \<Rightarrow> l
      | None \<Rightarrow> c)"

text \<open>\<^verbatim>\<open>uri.match(/\.(e1|e2|...)/i)\<close>: a dot followed by one of the extensions, in any case.\<close>

definition matches_extension :: "string \<Rightarrow> string list \<Rightarrow> bool" where
  "matches_extension uri exts = list_ex (\<lambda>e. str_includes (map to_lower uri) (CHR ''.'' # e)) exts"

definition is_digit :: "char \<Rightarrow> bool" where
  "is_digit c = (c \<in> set ''0123456789'')"

definition digit_value :: "char \<Rightarrow> nat" where
  "digit_value c =
     (case map_of (zip ''0123456789'' [0, 1, 2, 3, 4, 5, 6, 7, 8, 9]) c of
        Some v \<Rightarrow> v
      | None \<Rightarrow> 0)"

text \<open>\<^verbatim>\<open>parseFloat\<close> of a string of decimal digits.\<close>

definition parseFloat_digits :: "string \<Rightarrow> number" where
  "parseFloat_digits ds = real (foldl (\<lambda>acc c. 10 * acc + digit_value c) 0 ds)"

text \<open>
  \<^verbatim>\<open>s.match(/after (\d+)ms/)\<close>: the first position where the pattern matches, and the digits
  it captures there. The digits are followed by \<^verbatim>\<open>m\<close>, so the greedy \<^verbatim>\<open>\d+\<close> takes all
  the digits or the pattern fails at that position.
\<close>

definition after_ms_here :: "string \<Rightarrow> string option" where
  "after_ms_here s =
     (if startsWith s ''after '' then
        let r = drop 6 s; ds = takeWhile is_digit r
        in if ds \<noteq> [] \<and> startsWith (dropWhile is_digit r) ''ms'' then Some ds else None
      else None)"

fun match_after_ms :: "string \<Rightarrow> string option" where
  "match_after_ms [] = None"
| "match_after_ms (c # cs) =
     (case after_ms_here (c # cs) of Some ds \<Rightarrow> Some ds | None \<Rightarrow> match_after_ms cs)"

text \<open>
  \<^verbatim>\<open>s.match(/for URL (https?:\/\/[^,]+)/)\<close>: the first position where the pattern matches, and
  the address it captures, up to the next comma or the end.
\<close>

definition for_url_here :: "string \<Rightarrow> string option" where
  "for_url_here s =
     (if startsWith s ''for URL http'' then
        let r = drop 12 s
        in if startsWith r ''s://'' \<and> takeWhile (\<lambda>c. c \<noteq> CHR '','') (drop 4 r) \<noteq> []
           then Some (''https://'' @ takeWhile (\<lambda>c. c \<noteq> CHR '','') (drop 4 r))
           else if startsWith r ''://'' \<and> takeWhile (\<lambda>c. c \<noteq> CHR '','') (drop 3 r) \<noteq> []
           then Some (''http://'' @ takeWhile (\<lambda>c. c \<noteq> CHR '','') (drop 3 r))
           else None
      else None)"

fun match_for_url :: "string \<Rightarrow> string option" where
  "match_for_url [] = None"
| "match_for_url (c # cs) =
     (case for_url_here (c # cs) of Some u \<Rightarrow> Some u | None \<Rightarrow> match_for_url cs)"

subsection \<open>Page load summary\<close>

record resource =
  r_url :: string
  r_duration :: number
  r_type :: string

text \<open>The variables the first loop of \<^verbatim>\<open>getPageLoadSummary\<close> assigns.\<close>

record loadState =
  navigationStart :: "number option"
  load :: "number option"
  loadUrl :: "string option"
  firstContentfulPaint :: "number option"
  largestContentfulPaint :: "number option"
  ls_resources :: "resource list"

definition initial_loadState :: loadState where
  "initial_loadState =
     \<lparr>navigationStart = None, load = None, loadUrl = None, firstContentfulPaint = None,
      largestContentfulPaint = None, ls_resources = []\<rparr>"

text \<open>The chain that chooses \<^verbatim>\<open>resourceType\<close> from the address of a resource.\<close>

definition resourceType :: "string \<Rightarrow> string" where
  "resourceType uri =
     (if endsWith uri ''.js'' \<or> str_includes uri ''.js?'' then ''JS''
      else if endsWith uri ''.css'' \<or> str_includes uri ''.css?'' then ''CSS''
      else if matches_extension uri [''png'', ''jpg'', ''jpeg'', ''gif'', ''webp'', ''svg'', ''ico'']
      then ''Image''
      else if matches_extension uri [''woff'', ''woff2'', ''ttf'', ''eot''] then ''Font''
      else if startsWith uri ''http'' \<and> \<not> str_includes uri ''.'' then ''Document''
      else ''Other'')"

text \<open>
  The branch of the first loop for the load of a resource. The address \<^verbatim>\<open>uri\<close> is a truthy
  field of the payload; its string methods are called only when \<^verbatim>\<open>navigationStart\<close> is set,
  and fail on a value that is not a string.
\<close>

definition resource_branch :: "marker \<Rightarrow> loadState \<Rightarrow> error + loadState" where
  "resource_branch marker s =
     (if navigationStart s = None then Inr s
      else
        (case the (m_data marker) ''URI'' of
           JStr uri \<Rightarrow>
             Inr (s\<lparr>loadUrl :=
                      (if startsWith uri ''http'' \<and> \<not> str_includes uri ''.js''
                          \<and> \<not> str_includes uri ''.css'' \<and> \<not> str_truthy (loadUrl s)
                       then Some uri else loadUrl s),
                    ls_resources :=
                      ls_resources s @
                      [\<lparr>r_url = uri,
                        r_duration =
                          (if num_truthy (m_end marker)
                           then the (m_end marker) - start_of marker else 0),
                        r_type = resourceType uri\<rparr>]\<rparr>)
         | _ \<Rightarrow> Inl TypeError))"

text \<open>The branches for the first and for the largest contentful paint.\<close>

definition fcp_branch :: "string \<Rightarrow> loadState \<Rightarrow> loadState" where
  "fcp_branch markerName s =
     (case match_after_ms markerName of
        None \<Rightarrow> s
      | Some ds \<Rightarrow>
          s\<lparr>firstContentfulPaint := Some (parseFloat_digits ds),
            loadUrl :=
              (if str_includes markerName ''for URL'' \<and> \<not> str_truthy (loadUrl s)
               then (case match_for_url markerName of
                       Some u \<Rightarrow> Some u
                     | None \<Rightarrow> loadUrl s)
               else loadUrl s)\<rparr>)"

definition lcp_branch :: "string \<Rightarrow> loadState \<Rightarrow> loadState" where
  "lcp_branch markerName s =
     (case match_after_ms markerName of
        None \<Rightarrow> s
      | Some ds \<Rightarrow> s\<lparr>largestContentfulPaint := Some (parseFloat_digits ds)\<rparr>)"

text \<open>
  The body of the first loop for a marker whose name has resolved to the string
  \<^verbatim>\<open>markerName\<close>: the chain of tests, in the order of the script.
\<close>

definition load_step :: "string \<Rightarrow> marker \<Rightarrow> loadState \<Rightarrow> error + loadState" where
  "load_step markerName marker s =
     (if markerName = ''Navigation::Start'' \<and> navigationStart s = None
      then Inr (s\<lparr>navigationStart := Some (start_of marker)\<rparr>)
      else if startsWith markerName ''Load '' \<and> m_data marker \<noteq> None
              \<and> truthy (the (m_data marker) ''URI'')
      then resource_branch marker s
      else if markerName = ''Load'' \<and> load s = None
      then Inr (s\<lparr>load := Some (start_of marker)\<rparr>)
      else if startsWith markerName ''Contentful paint after'' \<and> firstContentfulPaint s = None
      then Inr (fcp_branch markerName s)
      else if startsWith markerName ''Largest contentful paint after''
              \<and> largestContentfulPaint s = None
      then Inr (lcp_branch markerName s)
      else Inr s)"

text \<open>
  The first loop. A name that has resolved to a value that is not a string fails the first
  test and then has no method \<^verbatim>\<open>startsWith\<close>.
\<close>

fun load_loop :: "stringTable \<Rightarrow> marker list \<Rightarrow> loadState \<Rightarrow> error + loadState" where
  "load_loop stringTable [] s = Inr s"
| "load_loop stringTable (marker # rest) s =
     (case markerName_pageLoad stringTable marker of
        JStr markerName \<Rightarrow>
          (case load_step markerName marker s of
             Inl e \<Rightarrow> Inl e
           | Inr s' \<Rightarrow> load_loop stringTable rest s')
      | _ \<Rightarrow> Inl TypeError)"

text \<open>
  The fields of the summary that the first loop decides. The statistics of the resources,
  of the sample categories and of the jank periods (lines 577 to 734) are computed from the
  same variables and from the tables of the thread; they assign none of the variables
  above and are not part of the model.
\<close>

record pageLoadSummary =
  pl_url :: "string option"
  pl_navigationStart :: "number option"
  pl_load :: "number option"
  pl_firstContentfulPaint :: "number option"
  pl_largestContentfulPaint :: "number option"

definition getPageLoadSummary :: "stringTable \<Rightarrow> marker list \<Rightarrow> error + pageLoadSummary" where
  "getPageLoadSummary stringTable filteredMarkers =
     (case load_loop stringTable filteredMarkers initial_loadState of
        Inl e \<Rightarrow> Inl e
      | Inr s \<Rightarrow>
          Inr \<lparr>pl_url = loadUrl s,
               pl_navigationStart = navigationStart s,
               pl_load =
                 (if load s \<noteq> None \<and> navigationStart s \<noteq> None
                  then Some (the (load s) - the (navigationStart s)) else None),
               pl_firstContentfulPaint = firstContentfulPaint s,
               pl_largestContentfulPaint = largestContentfulPaint s\<rparr>)"

text \<open>
  The paint a marker gives: the milliseconds parsed from its name when the name is a string
  that starts with the prefix and parses, nothing otherwise. The paint of a list of markers
  is that of the first marker that gives one.
\<close>

definition paint_value :: "stringTable \<Rightarrow> string \<Rightarrow> marker \<Rightarrow> number option" where
  "paint_value st pfx m =
     (case resolved_name st m of
        JStr n \<Rightarrow>
          (if startsWith n pfx then map_option parseFloat_digits (match_after_ms n) else None)
      | _ \<Rightarrow> None)"

fun first_paint :: "stringTable \<Rightarrow> string \<Rightarrow> marker list \<Rightarrow> number option" where
  "first_paint st pfx [] = None"
| "first_paint st pfx (m # ms) =
     (case paint_value st pfx m of Some v \<Rightarrow> Some v | None \<Rightarrow> first_paint st pfx ms)"

section \<open>Driving the page\<close>

text \<open>
  Every operation of \<^verbatim>\<open>profiler.ts\<close> is a sequence of awaited calls on a page of the browser.
  The sequence is a list of page operations; an operation starts when the one before has
  returned.
\<close>

datatype waitCond = DataLoaded | SymbolicationDone

datatype action =
    ChangeInvertCallstack bool
  | ChangeSelectedTab string
  | FocusFunction string
  | FilterSamples string

datatype annotateMode = Asm | Src | All

record foundNode =
  found_funcName :: string
  found_selfTime :: number
  found_totalTime :: number

datatype script =
    CallTreeScript number bool
  | MarkerSummaryScript
  | FlamegraphScript "number option"
  | PageLoadScript
  | NetworkScript
  | FindFunctionScript string

text \<open>
  \<^verbatim>\<open>Dispatch\<close> is a \<^verbatim>\<open>page.evaluate\<close> of a script that dispatches actions of the user interface,
  \<^verbatim>\<open>Extract\<close> one of a script that reads data out of the page. \<^verbatim>\<open>Annotate\<close> stands for the
  assembly and source extraction of \<^verbatim>\<open>annotateFunction\<close> (all it does between finding the
  function and closing the page), whose page calls and output are not broken down.
\<close>

datatype pageOp =
    NewPage
  | Goto string
  | WaitForFunction waitCond
  | Dispatch "action list"
  | Extract script
  | Sleep nat
  | ConsoleLog string
  | ConsoleError string
  | Annotate annotateMode foundNode
  | ClosePage

text \<open>The state of the web application the two waits look at.\<close>

record appState =
  has_selectors :: bool
  view_phase :: string
  symbolicationStatus :: string

fun cond_holds :: "waitCond \<Rightarrow> appState \<Rightarrow> bool" where
  "cond_holds DataLoaded s = (has_selectors s \<and> view_phase s = ''DATA_LOADED'')"
| "cond_holds SymbolicationDone s = (symbolicationStatus s = ''DONE'')"

text \<open>
  \<^verbatim>\<open>waitForFunction\<close> against the states of the application that its polls see one after
  the other: it returns at the first state where its condition holds, with the states it
  has polled and those still to come. When there is none it does not return (or, given a
  timeout, rejects).
\<close>

fun wait_for :: "waitCond \<Rightarrow> appState list \<Rightarrow> (appState list \<times> appState list) option" where
  "wait_for c [] = None"
| "wait_for c (s # obs) =
     (if cond_holds c s then Some ([s], obs)
      else (case wait_for c obs of
              None \<Rightarrow> None
            | Some r \<Rightarrow> Some (s # fst r, snd r)))"

text \<open>
  Running a sequence: an operation starts when the one before has returned, and nothing
  runs after a wait that does not return. The result lists the operations other than
  waits in the order they ran, each with the states seen before it.
\<close>

fun run :: "pageOp list \<Rightarrow> appState list \<Rightarrow> appState list \<Rightarrow> (pageOp \<times> appState list) list" where
  "run [] obs seen = []"
| "run (opn # ops) obs seen =
     (case opn of
        WaitForFunction c \<Rightarrow>
          (case wait_for c obs of
             None \<Rightarrow> []
           | Some r \<Rightarrow> run ops (snd r) (seen @ fst r))
      | _ \<Rightarrow> (opn, seen) # run ops obs seen)"

text \<open>
  Both readiness conditions have held among the states seen: the data was loaded in one of
  them and the symbolication was done in that one or a later one.
\<close>

definition ready :: "appState list \<Rightarrow> bool" where
  "ready seen =
     list_ex (cond_holds SymbolicationDone) (dropWhile (\<lambda>s. \<not> cond_holds DataLoaded s) seen)"

text \<open>
  Both readiness conditions have held together: in one of the states seen the view phase
  was \<^verbatim>\<open>DATA_LOADED\<close> and the symbolication status was \<^verbatim>\<open>DONE\<close>.
\<close>

definition ready_together :: "appState list \<Rightarrow> bool" where
  "ready_together seen =
     list_ex (\<lambda>s. cond_holds DataLoaded s \<and> cond_holds SymbolicationDone s) seen"

text \<open>
  The application keeps its data once loaded: in a sequence of states, every state after
  one in which the data is loaded has the data loaded too.
\<close>

fun stays_loaded :: "appState list \<Rightarrow> bool" where
  "stays_loaded [] = True"
| "stays_loaded (s # obs) =
     (if cond_holds DataLoaded s then list_all (cond_holds DataLoaded) obs
      else stays_loaded obs)"

text \<open>The operations that act on the user interface or read data from the page.\<close>

fun touches_page :: "pageOp \<Rightarrow> bool" where
  "touches_page (Dispatch acts) = True"
| "touches_page (Extract sc) = True"
| "touches_page (Annotate md f) = True"
| "touches_page opn = False"

text \<open>
  The page calls of the five extraction functions. The script that focuses on a function
  also reports whether it found the function in the function table; the warning printed
  from that report is left out.
\<close>

definition getCallTreeData_ops ::
  "string \<Rightarrow> number \<Rightarrow> bool \<Rightarrow> string option \<Rightarrow> string option \<Rightarrow> pageOp list" where
  "getCallTreeData_ops u topN detailed functionName markerTransform =
     [NewPage, Goto u, WaitForFunction DataLoaded, WaitForFunction SymbolicationDone,
      Dispatch [ChangeInvertCallstack True, ChangeSelectedTab ''calltree''], Sleep 500]
     @ (case functionName of None \<Rightarrow> [] | Some f \<Rightarrow> [Dispatch [FocusFunction f], Sleep 5000])
     @ (case markerTransform of None \<Rightarrow> [] | Some m \<Rightarrow> [Dispatch [FilterSamples m], Sleep 2000])
     @ (if functionName = None \<and> markerTransform = None then [Sleep 500] else [])
     @ [Extract (CallTreeScript topN detailed), ClosePage]"

definition getMarkerSummary_ops :: "string \<Rightarrow> pageOp list" where
  "getMarkerSummary_ops u =
     [NewPage, Goto u, WaitForFunction DataLoaded, WaitForFunction SymbolicationDone,
      Extract MarkerSummaryScript, ClosePage]"

definition getFlamegraphData_ops ::
  "string \<Rightarrow> number option \<Rightarrow> string option \<Rightarrow> string option \<Rightarrow> pageOp list" where
  "getFlamegraphData_ops u maxDepth functionName markerTransform =
     [NewPage, Goto u, WaitForFunction DataLoaded, WaitForFunction SymbolicationDone,
      Dispatch [ChangeInvertCallstack False, ChangeSelectedTab ''calltree''], Sleep 500]
     @ (case functionName of None \<Rightarrow> [] | Some f \<Rightarrow> [Dispatch [FocusFunction f], Sleep 5000])
     @ (case markerTransform of None \<Rightarrow> [] | Some m \<Rightarrow> [Dispatch [FilterSamples m], Sleep 5000])
     @ (if functionName = None \<and> markerTransform = None then [Sleep 500] else [])
     @ [Extract (FlamegraphScript maxDepth), ClosePage]"

definition getPageLoadSummary_ops :: "string \<Rightarrow> pageOp list" where
  "getPageLoadSummary_ops u =
     [NewPage, Goto u, WaitForFunction DataLoaded, WaitForFunction SymbolicationDone,
      Extract PageLoadScript, ClosePage]"

definition getNetworkResources_ops :: "string \<Rightarrow> pageOp list" where
  "getNetworkResources_ops u =
     [NewPage, Goto u, WaitForFunction DataLoaded, WaitForFunction SymbolicationDone,
      Extract NetworkScript, ClosePage]"

subsection \<open>Annotating a function\<close>

text \<open>
  The script of \<^verbatim>\<open>annotateFunction\<close> that looks the function up among the roots of the
  inverted call tree: the loop leaves at the first root whose node data has exactly the
  name.
\<close>

fun search_roots :: "string \<Rightarrow> callNode list \<Rightarrow> foundNode option" where
  "search_roots functionName [] = None"
| "search_roots functionName (rootNode # rest) =
     (case getNodeData rootNode of
        None \<Rightarrow> search_roots functionName rest
      | Some d \<Rightarrow>
          if funcName d = Some functionName
          then Some \<lparr>found_funcName = functionName,
                     found_selfTime = num_or (self d) 0,
                     found_totalTime = num_or (nd_total d) 0\<rparr>
          else search_roots functionName rest)"

definition find_function :: "callTree \<Rightarrow> string \<Rightarrow> string + foundNode" where
  "find_function ct functionName =
     (case ct of
        None \<Rightarrow> Inl ''No call tree data available''
      | Some rootNodes \<Rightarrow>
          if rootNodes = [] then Inl ''No call tree data available''
          else
            (case search_roots functionName rootNodes of
               None \<Rightarrow> Inl (''Function '' @ [CHR 0x22] @ functionName @ [CHR 0x22]
                           @ '' not found in call tree'')
             | Some foundNode \<Rightarrow> Inr foundNode))"

text \<open>
  What \<^verbatim>\<open>annotateFunction\<close> does once the script has returned: on an error it prints the error,
  closes the page and returns; otherwise it goes on to the extraction.
\<close>

definition after_search :: "annotateMode \<Rightarrow> string + foundNode \<Rightarrow> pageOp list" where
  "after_search md result =
     (case result of
        Inl err \<Rightarrow> [ConsoleError err, ClosePage]
      | Inr foundNode \<Rightarrow> [Annotate md foundNode, ClosePage])"

text \<open>
  The page calls of \<^verbatim>\<open>annotateFunction\<close>; \<^verbatim>\<open>ct\<close> is the call tree in the page when the search
  script is evaluated.
\<close>

definition annotateFunction_ops ::
  "callTree \<Rightarrow> string \<Rightarrow> string \<Rightarrow> annotateMode \<Rightarrow> pageOp list" where
  "annotateFunction_ops ct u functionName md =
     [NewPage, ConsoleLog ''Loading profile...'', Goto u,
      ConsoleLog ''Waiting for profile data...'', WaitForFunction DataLoaded,
      ConsoleLog ''Waiting for symbolication...'', WaitForFunction SymbolicationDone,
      Dispatch [ChangeInvertCallstack True, ChangeSelectedTab ''calltree''], Sleep 500,
      ConsoleLog (''Searching for function: '' @ functionName),
      Extract (FindFunctionScript functionName)]
     @ after_search md (find_function ct functionName)"

text \<open>The function name matches a root node by exact equality of \<^verbatim>\<open>funcName\<close>.\<close>

definition matches_root :: "string \<Rightarrow> callNode \<Rightarrow> bool" where
  "matches_root functionName r =
     (case getNodeData r of None \<Rightarrow> False | Some d \<Rightarrow> funcName d = Some functionName)"

section \<open>The command line\<close>

text \<open>
  The options as \<^verbatim>\<open>yargs\<close> has parsed them, and \<^verbatim>\<open>process.argv\<close>. A numeric option that
  was not given is \<^verbatim>\<open>undefined\<close>; the two boolean modes default to \<^verbatim>\<open>false\<close>. The parser
  answers \<^verbatim>\<open>--help\<close>, enabled by \<^verbatim>\<open>.help()\<close>, and \<^verbatim>\<open>--version\<close>, enabled by default, itself:
  reading \<^verbatim>\<open>.argv\<close> prints the text and ends the process with status 0. The two fields
  \<^verbatim>\<open>arg_help\<close> and \<^verbatim>\<open>arg_version\<close> say whether the parser has met them.
\<close>

record argv =
  arg_help :: bool
  arg_version :: bool
  arg_positional :: "jsval list"
  arg_ai :: "bool option"
  arg_calltree :: "number option"
  arg_focusFunction :: "string option"
  arg_focusMarker :: "string option"
  arg_topMarkers :: "number option"
  arg_detailed :: bool
  arg_maxPaths :: number
  arg_flamegraph :: "number option"
  arg_pageLoad :: bool
  arg_network :: bool

text \<open>
  The start of \<^verbatim>\<open>index.ts\<close> ends the process with a status, or goes on to launch the
  browser for the profile address.
\<close>

datatype outcome = Exit nat "string list" | LaunchBrowser jsval

text \<open>\<^verbatim>\<open>xs[i]\<close>, which is \<^verbatim>\<open>undefined\<close> beyond the end.\<close>

definition at_index :: "jsval list \<Rightarrow> nat \<Rightarrow> jsval" where
  "at_index xs i = (if i < length xs then xs ! i else JUndefined)"

definition num_val :: "number option \<Rightarrow> jsval" where
  "num_val x = (case x of None \<Rightarrow> JUndefined | Some n \<Rightarrow> JNum n)"

definition optionCount :: "argv \<Rightarrow> string list \<Rightarrow> nat" where
  "optionCount a process_argv =
     length (filter (\<lambda>x. x \<noteq> JUndefined \<and> x \<noteq> JBool False)
       [num_val (arg_calltree a), JBool (''--top-markers'' \<in> set process_argv),
        JBool (''--flamegraph'' \<in> set process_argv), JBool (arg_pageLoad a), JBool (arg_network a)])"

definition cli_start :: "argv \<Rightarrow> string list \<Rightarrow> outcome" where
  "cli_start a process_argv =
     (if arg_help a \<or> arg_version a then Exit 0 []
      else if arg_ai a = Some True then Exit 0 []
      else if \<not> truthy (at_index (arg_positional a) 0)
      then Exit 1 [''Please provide a profile URL'']
      else if arg_focusMarker a = Some []
              \<or> (arg_focusMarker a = None \<and> 1 < length (arg_positional a)
                  \<and> (case at_index (arg_positional a) 1 of
                        JStr s \<Rightarrow> startsWith s ''-''
                      | _ \<Rightarrow> False))
      then Exit 1
             [''Error: When using --focus-marker with a value starting with ''
                @ [CHR 0x27] @ ''-'' @ [CHR 0x27] @ '', use the equals sign syntax:'',
              ''  --focus-marker='' @ [CHR 0x22] @ ''-async,-sync'' @ [CHR 0x22],
              [CHR 0x0A] @ ''Instead of:'',
              ''  --focus-marker '' @ [CHR 0x22] @ ''-async,-sync'' @ [CHR 0x22]]
      else
        let hasTopMarkersFlag = ''--top-markers'' \<in> set process_argv;
            hasFlamegraphFlag = ''--flamegraph'' \<in> set process_argv
        in if \<not> num_truthy (arg_calltree a) \<and> \<not> hasTopMarkersFlag \<and> \<not> hasFlamegraphFlag
              \<and> \<not> arg_pageLoad a \<and> \<not> arg_network a
           then Exit 1
                  [''Please specify one of: --calltree <N>, --flamegraph, --top-markers [N], --page-load, or --network'',
                   ''Note: --focus-function can be used with --calltree or --flamegraph to filter results'']
           else if 1 < optionCount a process_argv
           then Exit 1
                  [''Please specify only one of: --calltree, --flamegraph, --top-markers, --page-load, or --network'']
           else LaunchBrowser (at_index (arg_positional a) 0))"

text \<open>
  An option is written in the arguments of the process as an argument of its own, or with
  its value attached after an equals sign.
\<close>

definition attached_value :: "string \<Rightarrow> string list \<Rightarrow> bool" where
  "attached_value opt process_argv = list_ex (\<lambda>t. startsWith t (opt @ ''='')) process_argv"

definition option_written :: "string \<Rightarrow> string list \<Rightarrow> bool" where
  "option_written opt process_argv = (opt \<in> set process_argv \<or> attached_value opt process_argv)"

text \<open>
  The analysis modes an invocation specifies: \<^verbatim>\<open>--calltree\<close> with a value, \<^verbatim>\<open>--top-markers\<close>
  and \<^verbatim>\<open>--flamegraph\<close>, which may stand without a value, when written either way, and the
  two boolean modes.
\<close>

definition modes_specified :: "argv \<Rightarrow> string list \<Rightarrow> nat" where
  "modes_specified a process_argv =
     (if arg_calltree a \<noteq> None then 1 else 0)
     + (if option_written ''--top-markers'' process_argv then 1 else 0)
     + (if option_written ''--flamegraph'' process_argv then 1 else 0)
     + (if arg_pageLoad a then 1 else 0)
     + (if arg_network a then 1 else 0)"

subsection \<open>Printing the call paths\<close>





section \<open>Words of the specification about the call tree\<close>

text \<open>The root nodes of a call tree, and the valid ones: those whose node data has a function name.\<close>

definition roots_of :: "callTree \<Rightarrow> callNode list" where
  "roots_of ct = (case ct of None \<Rightarrow> [] | Some rs \<Rightarrow> rs)"


section \<open>The order of waits in a sequence of page operations\<close>

text \<open>
  A check of a sequence of page operations, from a stage of readiness reached so far:
  0 when no wait has returned, 1 when the wait for the loaded data has, 2 when the wait
  for the symbolication has returned after it. The check holds when every operation that
  touches the page stands at stage 2.
\<close>

fun waits_first :: "nat \<Rightarrow> pageOp list \<Rightarrow> bool" where
  "waits_first stage [] = True"
| "waits_first stage (WaitForFunction DataLoaded # ops) = waits_first (max stage 1) ops"
| "waits_first stage (WaitForFunction SymbolicationDone # ops) =
     waits_first (if 1 \<le> stage then 2 else stage) ops"
| "waits_first stage (opn # ops) = ((\<not> touches_page opn \<or> stage = 2) \<and> waits_first stage ops)"

text \<open>The data has been loaded in one of the states seen.\<close>

definition loaded :: "appState list \<Rightarrow> bool" where
  "loaded seen = list_ex (cond_holds DataLoaded) seen"

definition state_loading :: appState where
  "state_loading = \<lparr>has_selectors = True, view_phase = ''INITIALIZING'', symbolicationStatus = ''SYMBOLICATING''\<rparr>"

definition state_loaded :: appState where
  "state_loaded = \<lparr>has_selectors = True, view_phase = ''DATA_LOADED'', symbolicationStatus = ''SYMBOLICATING''\<rparr>"

definition state_lost :: appState where
  "state_lost = \<lparr>has_selectors = True, view_phase = ''FATAL_ERROR'', symbolicationStatus = ''DONE''\<rparr>"

definition state_done :: appState where
  "state_done = \<lparr>has_selectors = True, view_phase = ''DATA_LOADED'', symbolicationStatus = ''DONE''\<rparr>"

section \<open>Words of the specification about network resources\<close>

text \<open>
  The start of the navigation: the start of the first marker that resolves to the name
  \<^verbatim>\<open>Navigation::Start\<close>, when there is one.
\<close>

definition navigation_start :: "stringTable \<Rightarrow> marker list \<Rightarrow> number option" where
  "navigation_start st ms =
     map_option start_of (find (\<lambda>m. resolved_name st m = JStr ''Navigation::Start'') ms)"

text \<open>
  The resource of a network marker: the fields the script copies, the start relative to
  the start of the navigation when there is one, and the phases of its payload.
\<close>

definition resource_of :: "number option \<Rightarrow> marker \<Rightarrow> networkResourceTiming" where
  "resource_of nav m = mk_resource nav m (phases_of (the (m_data m)))"

text \<open>Whether the phases of some resource have a label.\<close>

definition label_used :: "networkResourceTiming list \<Rightarrow> string \<Rightarrow> bool" where
  "label_used rs l = list_ex (\<lambda>r. list_ex (\<lambda>p. label p = l) (phases r)) rs"

text \<open>The total of a label after more phases have been added to it.\<close>

definition plus_phases :: "number option \<Rightarrow> networkPhase list \<Rightarrow> string \<Rightarrow> number option" where
  "plus_phases old ps l =
     (if filter (\<lambda>p. label p = l) ps = [] then old
      else Some ((case old of None \<Rightarrow> 0 | Some v \<Rightarrow> v)
                 + sum_list (map np_duration (filter (\<lambda>p. label p = l) ps))))"

section \<open>Words of the specification about the page load\<close>

text \<open>The first marker that resolves to the name \<^verbatim>\<open>Load\<close>.\<close>

definition load_marker :: "stringTable \<Rightarrow> marker list \<Rightarrow> marker option" where
  "load_marker st ms = find (\<lambda>m. resolved_name st m = JStr ''Load'') ms"

text \<open>
  The load time: the start of the first marker named \<^verbatim>\<open>Load\<close> minus the start of the
  navigation when both are found, nothing otherwise.
\<close>

definition load_time :: "stringTable \<Rightarrow> marker list \<Rightarrow> number option" where
  "load_time st ms =
     (case navigation_start st ms of
        None \<Rightarrow> None
      | Some nav \<Rightarrow>
          (case load_marker st ms of
             None \<Rightarrow> None
           | Some l \<Rightarrow> Some (start_of l - nav)))"

section \<open>Example inputs\<close>

definition leaf_node :: "string \<Rightarrow> number \<Rightarrow> number \<Rightarrow> callNode" where
  "leaf_node f s t =
     CallNode (Some \<lparr>funcName = Some f, self = Some s, nd_total = Some t\<rparr>) None"

definition inner_node :: "string \<Rightarrow> number \<Rightarrow> number \<Rightarrow> callNode list \<Rightarrow> callNode" where
  "inner_node f s t cs =
     CallNode (Some \<lparr>funcName = Some f, self = Some s, nd_total = Some t\<rparr>) (Some cs)"

definition unnamed_node :: "callNode list \<Rightarrow> callNode" where
  "unnamed_node cs =
     CallNode (Some \<lparr>funcName = None, self = Some 1, nd_total = Some 1\<rparr>) (Some cs)"

definition three_roots :: callTree where
  "three_roots = Some [leaf_node ''a'' 1 5, leaf_node ''b'' 3 4, leaf_node ''c'' 2 2]"

definition argv_default :: argv where
  "argv_default =
     \<lparr>arg_help = False, arg_version = False,
      arg_positional = [JStr ''https://share.firefox.dev/x''], arg_ai = None,
      arg_calltree = None, arg_focusFunction = None, arg_focusMarker = None,
      arg_topMarkers = None, arg_detailed = False, arg_maxPaths = 5, arg_flamegraph = None,
      arg_pageLoad = False, arg_network = False\<rparr>"

definition marker_plain :: "string \<Rightarrow> number \<Rightarrow> number \<Rightarrow> marker" where
  "marker_plain n s e =
     \<lparr>m_name = n, m_start = Some s, m_end = Some e, m_startTime = None, m_data = None\<rparr>"

definition marker_named :: "jsval \<Rightarrow> number \<Rightarrow> number \<Rightarrow> marker" where
  "marker_named v s e =
     \<lparr>m_name = ''UserTiming'', m_start = Some s, m_end = Some e, m_startTime = None,
      m_data = Some ((\<lambda>k. JUndefined)(''name'' := v))\<rparr>"

definition table_example :: stringTable where
  "table_example i = (if i = 7 then ''Navigation::Start'' else ''DOMEvent'')"



definition flame_example :: callTree where
  "flame_example =
     Some [inner_node ''main'' 0 10
             [leaf_node ''a'' 2 2,
              unnamed_node [leaf_node ''x'' 1 1],
              inner_node ''b'' 1 8 [leaf_node ''c'' 7 7]],
           leaf_node ''idle'' 20 20]"

definition markers_example :: "marker list" where
  "markers_example =
     [marker_plain ''Paint'' 1 3,
      marker_named (JNum 3) 2 7,
      marker_plain ''Paint'' 10 14,
      marker_plain ''Instant'' 5 5,
      marker_named (JStr ''Paint'') 20 21]"

definition marker_net :: "string \<Rightarrow> number \<Rightarrow> number \<Rightarrow> number \<Rightarrow> marker" where
  "marker_net uri s rq e =
     \<lparr>m_name = ''Load 1: '' @ uri, m_start = Some s, m_end = Some e, m_startTime = None,
      m_data =
        Some ((\<lambda>k. JUndefined)
               (''type'' := JStr ''Network'', ''status'' := JStr ''STATUS_STOP'',
                ''URI'' := JStr uri, ''startTime'' := JNum s, ''requestStart'' := JNum rq,
                ''responseEnd'' := JStr ''pending'', ''endTime'' := JNum e))\<rparr>"

definition network_example :: "marker list" where
  "network_example =
     [marker_net ''https://a.test/late.js'' 40 45 60,
      marker_named (JNum 7) 10 10,
      marker_plain ''Paint'' 12 13,
      marker_net ''https://a.test/'' 20 22 30]"

definition pageload_example :: "marker list" where
  "pageload_example =
     [marker_plain ''Contentful paint after soon'' 1 1,
      marker_named (JNum 7) 100 100,
      marker_net ''https://a.test/app.js'' 110 115 130,
      marker_plain ''Contentful paint after 250ms for URL https://a.test/, foreground tab'' 350 350,
      marker_plain ''Load'' 900 905,
      marker_plain ''Contentful paint after 999ms'' 1099 1099,
      marker_plain ''Largest contentful paint after 400ms'' 500 500,
      marker_plain ''Load'' 2000 2001]"

section \<open>Properties of the array operations\<close>

lemma set_insort_cmp: "set (insort_cmp cmp x xs) = insert x (set xs)"
  by (induction xs) auto

lemma length_insort_cmp: "length (insort_cmp cmp x xs) = Suc (length xs)"
  by (induction xs) auto

lemma sort_cmp_Nil: "sort_cmp cmp [] = []"
  by (simp add: sort_cmp_def)

lemma sort_cmp_Cons: "sort_cmp cmp (x # xs) = insort_cmp cmp x (sort_cmp cmp xs)"
  by (simp add: sort_cmp_def)

lemma set_sort_cmp: "set (sort_cmp cmp xs) = set xs"
  by (induction xs) (simp_all add: sort_cmp_Nil sort_cmp_Cons set_insort_cmp)

lemma length_sort_cmp: "length (sort_cmp cmp xs) = length xs"
  by (induction xs) (simp_all add: sort_cmp_Nil sort_cmp_Cons length_insort_cmp)

lemma insort_desc_sorted:
  "sorted_wrt (\<lambda>a b. key b \<le> key a) xs \<Longrightarrow>
   sorted_wrt (\<lambda>a b. key b \<le> (key a :: number)) (insort_cmp (\<lambda>a b. key b - key a) x xs)"
  by (induction xs) (auto simp: set_insort_cmp)

lemma sort_desc_sorted:
  "sorted_wrt (\<lambda>a b. key b \<le> (key a :: number)) (sort_cmp (\<lambda>a b. key b - key a) xs)"
  by (induction xs) (simp_all add: sort_cmp_Nil sort_cmp_Cons insort_desc_sorted)

lemma insort_asc_sorted:
  "sorted_wrt (\<lambda>a b. key a \<le> key b) xs \<Longrightarrow>
   sorted_wrt (\<lambda>a b. key a \<le> (key b :: number)) (insort_cmp (\<lambda>a b. key a - key b) x xs)"
  by (induction xs) (auto simp: set_insort_cmp)

lemma sort_asc_sorted:
  "sorted_wrt (\<lambda>a b. key a \<le> (key b :: number)) (sort_cmp (\<lambda>a b. key a - key b) xs)"
  by (induction xs) (simp_all add: sort_cmp_Nil sort_cmp_Cons insort_asc_sorted)



section \<open>Top functions by self time\<close>








section \<open>The page is ready before it is used\<close>

lemma list_ex_dropWhile_append:
  "list_ex Q (dropWhile (\<lambda>s. \<not> P s) xs) \<Longrightarrow> list_ex Q (dropWhile (\<lambda>s. \<not> P s) (xs @ ys))"
  by (induction xs) auto

lemma ready_append: "ready seen \<Longrightarrow> ready (seen @ rest)"
  unfolding ready_def by (rule list_ex_dropWhile_append)

lemma loaded_append: "loaded seen \<Longrightarrow> loaded (seen @ rest)"
  by (simp add: loaded_def)

lemma loaded_then_done:
  "loaded seen \<Longrightarrow> cond_holds SymbolicationDone s \<Longrightarrow> ready (seen @ rest @ [s])"
proof (induction seen)
  case Nil
  then show ?case by (simp add: loaded_def)
next
  case (Cons x xs)
  show ?case
  proof (cases "cond_holds DataLoaded x")
    case True
    with Cons.prems show ?thesis by (simp add: ready_def)
  next
    case False
    with Cons.prems have "loaded xs" by (auto simp: loaded_def)
    with Cons.IH Cons.prems False show ?thesis by (simp add: ready_def)
  qed
qed

lemma wait_for_Some:
  "wait_for c obs = Some r \<Longrightarrow> \<exists>pre s. fst r = pre @ [s] \<and> cond_holds c s"
proof (induction obs arbitrary: r)
  case Nil
  then show ?case by simp
next
  case (Cons a obs)
  show ?case
  proof (cases "cond_holds c a")
    case True
    with Cons.prems show ?thesis by auto
  next
    case False
    with Cons.prems obtain r' where r': "wait_for c obs = Some r'" "r = (a # fst r', snd r')"
      by (auto split: option.splits)
    from Cons.IH[OF r'(1)] obtain pre s where "fst r' = pre @ [s]" "cond_holds c s" by blast
    with r'(2) have "fst r = (a # pre) @ [s] \<and> cond_holds c s" by simp
    then show ?thesis by blast
  qed
qed

lemma run_waits_first:
  "waits_first stage ops \<Longrightarrow> (1 \<le> stage \<longrightarrow> loaded seen) \<Longrightarrow> (stage = 2 \<longrightarrow> ready seen) \<Longrightarrow>
   (opn, sn) \<in> set (run ops obs seen) \<Longrightarrow> touches_page opn \<Longrightarrow> ready sn"
proof (induction ops arbitrary: stage obs seen)
  case Nil
  then show ?case by simp
next
  case (Cons a ops)
  show ?case
  proof (cases "\<exists>c. a = WaitForFunction c")
    case True
    then obtain c where WaitForFunction: "a = WaitForFunction c"
      by blast
    from Cons.prems(4) WaitForFunction obtain r where
      r: "wait_for c obs = Some r" and ev: "(opn, sn) \<in> set (run ops (snd r) (seen @ fst r))"
      by (cases "wait_for c obs") auto
    from wait_for_Some[OF r] obtain pre s where ps: "fst r = pre @ [s]" "cond_holds c s"
      by blast
    show ?thesis
    proof (cases c)
      case DataLoaded
      with Cons.prems(1) WaitForFunction have wf: "waits_first (max stage 1) ops"
        by simp
      have l: "loaded (seen @ fst r)"
        using ps DataLoaded by (simp add: loaded_def)
      have rd: "max stage 1 = 2 \<longrightarrow> ready (seen @ fst r)"
        using Cons.prems(3) by (auto simp: max_def intro: ready_append split: if_splits)
      from Cons.IH[OF wf _ rd ev Cons.prems(5)] l show ?thesis
        by simp
    next
      case SymbolicationDone
      with Cons.prems(1) WaitForFunction
      have wf: "waits_first (if 1 \<le> stage then 2 else stage) ops"
        by simp
      show ?thesis
      proof (cases "1 \<le> stage")
        case True
        with Cons.prems(2) have ls: "loaded seen"
          by simp
        with ps SymbolicationDone have "ready (seen @ fst r)"
          by (simp add: loaded_then_done)
        moreover have "loaded (seen @ fst r)"
          using ls by (rule loaded_append)
        ultimately show ?thesis
          using Cons.IH[OF wf _ _ ev Cons.prems(5)] True by simp
      next
        case False
        then have "stage = 0"
          by simp
        with Cons.IH[OF wf _ _ ev Cons.prems(5)] show ?thesis
          by simp
      qed
    qed
  next
    case False
    then have r: "run (a # ops) obs seen = (a, seen) # run ops obs seen"
      by (cases a) auto
    from False Cons.prems(1) have w: "(\<not> touches_page a \<or> stage = 2) \<and> waits_first stage ops"
      by (cases a) auto
    from Cons.prems(4) r consider "(opn, sn) = (a, seen)" | "(opn, sn) \<in> set (run ops obs seen)"
      by auto
    then show ?thesis
    proof cases
      case 1
      with w Cons.prems(3,5) show ?thesis
        by auto
    next
      case 2
      from w have "waits_first stage ops"
        by simp
      from Cons.IH[OF this Cons.prems(2,3) 2 Cons.prems(5)] show ?thesis .
    qed
  qed
qed

text \<open>The same for the two conditions holding together, when the data stays loaded.\<close>

lemma wait_for_split: "wait_for c obs = Some r \<Longrightarrow> obs = fst r @ snd r"
proof (induction obs arbitrary: r)
  case Nil
  then show ?case by simp
next
  case (Cons a obs)
  show ?case
  proof (cases "cond_holds c a")
    case True
    with Cons.prems show ?thesis by auto
  next
    case False
    with Cons.prems obtain r' where r': "wait_for c obs = Some r'" "r = (a # fst r', snd r')"
      by (auto split: option.splits)
    from Cons.IH[OF r'(1)] r'(2) show ?thesis by simp
  qed
qed

lemma stays_loaded_after:
  "stays_loaded (xs @ ys) \<Longrightarrow> loaded xs \<Longrightarrow> list_all (cond_holds DataLoaded) ys"
proof (induction xs)
  case Nil
  then show ?case by (simp add: loaded_def)
next
  case (Cons x xs)
  show ?case
  proof (cases "cond_holds DataLoaded x")
    case True
    with Cons.prems(1) show ?thesis by (simp del: cond_holds.simps)
  next
    case False
    with Cons.prems have "stays_loaded (xs @ ys)" and "loaded xs"
      by (auto simp: loaded_def simp del: cond_holds.simps)
    then show ?thesis by (rule Cons.IH)
  qed
qed

lemma ready_together_append: "ready_together seen \<Longrightarrow> ready_together (seen @ rest)"
  by (simp add: ready_together_def)

lemma run_waits_together:
  "waits_first stage ops \<Longrightarrow> stays_loaded (seen @ obs) \<Longrightarrow> (1 \<le> stage \<longrightarrow> loaded seen) \<Longrightarrow>
   (stage = 2 \<longrightarrow> ready_together seen) \<Longrightarrow>
   (opn, sn) \<in> set (run ops obs seen) \<Longrightarrow> touches_page opn \<Longrightarrow> ready_together sn"
proof (induction ops arbitrary: stage obs seen)
  case Nil
  then show ?case by simp
next
  case (Cons a ops)
  show ?case
  proof (cases "\<exists>c. a = WaitForFunction c")
    case True
    then obtain c where WaitForFunction: "a = WaitForFunction c"
      by blast
    from Cons.prems(5) WaitForFunction obtain r where
      r: "wait_for c obs = Some r" and ev: "(opn, sn) \<in> set (run ops (snd r) (seen @ fst r))"
      by (cases "wait_for c obs") auto
    from wait_for_Some[OF r] obtain pre s where ps: "fst r = pre @ [s]" "cond_holds c s"
      by blast
    from wait_for_split[OF r] Cons.prems(2) have st: "stays_loaded ((seen @ fst r) @ snd r)"
      by simp
    show ?thesis
    proof (cases c)
      case DataLoaded
      with Cons.prems(1) WaitForFunction have wf: "waits_first (max stage 1) ops"
        by simp
      have l: "loaded (seen @ fst r)"
        using ps DataLoaded by (simp add: loaded_def)
      have rd: "max stage 1 = 2 \<longrightarrow> ready_together (seen @ fst r)"
        using Cons.prems(4) by (auto simp: max_def intro: ready_together_append split: if_splits)
      from Cons.IH[OF wf st _ rd ev Cons.prems(6)] l show ?thesis
        by simp
    next
      case SymbolicationDone
      with Cons.prems(1) WaitForFunction
      have wf: "waits_first (if 1 \<le> stage then 2 else stage) ops"
        by simp
      show ?thesis
      proof (cases "1 \<le> stage")
        case True
        with Cons.prems(3) have ls: "loaded seen"
          by simp
        from stays_loaded_after[OF Cons.prems(2) ls] wait_for_split[OF r] ps
        have "cond_holds DataLoaded s"
          by simp
        with ps SymbolicationDone have "ready_together (seen @ fst r)"
          by (simp add: ready_together_def)
        moreover have "loaded (seen @ fst r)"
          using ls by (rule loaded_append)
        ultimately show ?thesis
          using Cons.IH[OF wf st _ _ ev Cons.prems(6)] True by simp
      next
        case False
        then have "stage = 0"
          by simp
        with Cons.IH[OF wf st _ _ ev Cons.prems(6)] show ?thesis
          by simp
      qed
    qed
  next
    case False
    then have r: "run (a # ops) obs seen = (a, seen) # run ops obs seen"
      by (cases a) auto
    from False Cons.prems(1) have w: "(\<not> touches_page a \<or> stage = 2) \<and> waits_first stage ops"
      by (cases a) auto
    from Cons.prems(5) r consider "(opn, sn) = (a, seen)" | "(opn, sn) \<in> set (run ops obs seen)"
      by auto
    then show ?thesis
    proof cases
      case 1
      with w Cons.prems(4,6) show ?thesis
        by auto
    next
      case 2
      from w have "waits_first stage ops"
        by simp
      from Cons.IH[OF this Cons.prems(2,3,4) 2 Cons.prems(6)] show ?thesis .
    qed
  qed
qed

lemma waits_first_calltree:
  "waits_first 0 (getCallTreeData_ops u topN detailed functionName markerTransform)"
  by (simp add: getCallTreeData_ops_def split: option.splits)

lemma waits_first_flame:
  "waits_first 0 (getFlamegraphData_ops u maxDepth functionName markerTransform)"
  by (simp add: getFlamegraphData_ops_def split: option.splits)

lemma waits_first_annotate:
  "waits_first 0 (annotateFunction_ops ct u functionName md)"
  by (simp add: annotateFunction_ops_def after_search_def split: sum.splits)

lemma waits_first_simple:
  "waits_first 0 (getMarkerSummary_ops u)"
  "waits_first 0 (getPageLoadSummary_ops u)"
  "waits_first 0 (getNetworkResources_ops u)"
  by (simp_all add: getMarkerSummary_ops_def getPageLoadSummary_ops_def getNetworkResources_ops_def)

text \<open>
  Claim C6, with the two conditions told apart in time. In a run of any of the six
  operations against any sequence of states of the application, every operation that
  dispatches an action of the user interface or evaluates an extraction script runs after
  the view phase was \<^verbatim>\<open>DATA_LOADED\<close> in a state seen before it and the symbolication
  status was \<^verbatim>\<open>DONE\<close> in that state or a later one seen before it. When the application
  keeps its data once loaded, both conditions have held together in a state seen before
  the operation.
\<close>

theorem page_untouched_before_ready:
  assumes "ops \<in> {getCallTreeData_ops u topN detailed functionName markerTransform,
                   getMarkerSummary_ops u,
                   getFlamegraphData_ops u maxDepth functionName markerTransform,
                   getPageLoadSummary_ops u,
                   getNetworkResources_ops u,
                   annotateFunction_ops ct u annotated md}"
      and "(opn, seen) \<in> set (run ops obs [])"
      and "touches_page opn"
  shows "ready seen \<and> (stays_loaded obs \<longrightarrow> ready_together seen)"
proof -
  from assms(1) have wf: "waits_first 0 ops"
    using waits_first_calltree waits_first_flame waits_first_annotate waits_first_simple
    by auto
  from run_waits_first[OF wf _ _ assms(2,3)] have "ready seen"
    by simp
  moreover have "ready_together seen" if "stays_loaded obs"
    using run_waits_together[OF wf _ _ _ assms(2,3)] that by simp
  ultimately show ?thesis
    by blast
qed

theorem page_untouched_before_ready_witness:
  "(Extract MarkerSummaryScript, [state_loading, state_loaded, state_done])
     \<in> set (run (getMarkerSummary_ops ''u'') [state_loading, state_loaded, state_done, state_done] [])
   \<and> touches_page (Extract MarkerSummaryScript)
   \<and> stays_loaded [state_loading, state_loaded, state_done, state_done]
   \<and> ready [state_loading, state_loaded, state_done]
   \<and> ready_together [state_loading, state_loaded, state_done]"
proof -
  have m: "getMarkerSummary_ops ''u'' \<in>
             {getCallTreeData_ops ''u'' 1 False None None,
              getMarkerSummary_ops ''u'',
              getFlamegraphData_ops ''u'' None None None,
              getPageLoadSummary_ops ''u'',
              getNetworkResources_ops ''u'',
              annotateFunction_ops None ''u'' ''f'' Asm}"
    by simp
  have e: "(Extract MarkerSummaryScript, [state_loading, state_loaded, state_done])
     \<in> set (run (getMarkerSummary_ops ''u'') [state_loading, state_loaded, state_done, state_done] [])"
    by (simp add: getMarkerSummary_ops_def state_loading_def state_loaded_def state_done_def)
  have t: "touches_page (Extract MarkerSummaryScript)"
    by simp
  have s: "stays_loaded [state_loading, state_loaded, state_done, state_done]"
    by (simp add: state_loading_def state_loaded_def state_done_def)
  from page_untouched_before_ready[OF m e t] e t s show ?thesis
    by blast
qed

text \<open>
  The second wait does not test the view phase again. When the application leaves the
  phase \<^verbatim>\<open>DATA_LOADED\<close> before the symbolication is done, the extraction script runs though
  the two conditions have held in no state together.
\<close>

theorem page_touched_conditions_apart:
  "(Extract MarkerSummaryScript, [state_loaded, state_lost])
     \<in> set (run (getMarkerSummary_ops ''u'') [state_loaded, state_lost] [])
   \<and> \<not> ready_together [state_loaded, state_lost]"
  by (simp add: getMarkerSummary_ops_def state_loaded_def state_lost_def ready_together_def)

section \<open>A function that is not in the call tree\<close>

lemma search_roots_None:
  "(search_roots functionName rs = None) = (\<forall>r \<in> set rs. \<not> matches_root functionName r)"
  by (induction rs) (auto simp: matches_root_def split: option.splits)

lemma find_function_no_match:
  assumes "\<forall>r \<in> set (roots_of ct). \<not> matches_root functionName r"
  shows "find_function ct functionName =
           Inl (if roots_of ct = [] then ''No call tree data available''
                else ''Function '' @ [CHR 0x22] @ functionName @ [CHR 0x22]
                     @ '' not found in call tree'')"
proof (cases ct)
  case None
  then show ?thesis by (simp add: find_function_def roots_of_def)
next
  case (Some rs)
  with assms have "search_roots functionName rs = None"
    by (simp add: search_roots_None roots_of_def)
  with Some show ?thesis by (simp add: find_function_def roots_of_def)
qed

text \<open>
  Claim C7, with the message told apart by the list of roots. When the name matches no
  root node of the call tree, \<^verbatim>\<open>annotateFunction\<close> prints an error, closes the page and
  returns, whatever the mode, and no extraction is among its operations. The error is that
  the function was not found in the call tree when there are root nodes, and that no call
  tree data is available when there are none.
\<close>

theorem annotateFunction_not_found:
  assumes "\<forall>r \<in> set (roots_of ct). \<not> matches_root functionName r"
  shows "after_search md (find_function ct functionName) =
           [ConsoleError
              (if roots_of ct = [] then ''No call tree data available''
               else ''Function '' @ [CHR 0x22] @ functionName @ [CHR 0x22]
                    @ '' not found in call tree''),
            ClosePage]
         \<and> (\<forall>m f. Annotate m f \<notin> set (annotateFunction_ops ct u functionName md))
         \<and> last (annotateFunction_ops ct u functionName md) = ClosePage"
proof -
  have a: "after_search md (find_function ct functionName) =
           [ConsoleError
              (if roots_of ct = [] then ''No call tree data available''
               else ''Function '' @ [CHR 0x22] @ functionName @ [CHR 0x22]
                    @ '' not found in call tree''),
            ClosePage]"
    unfolding find_function_no_match[OF assms] by (simp add: after_search_def)
  have b: "\<forall>m f. Annotate m f \<notin> set (annotateFunction_ops ct u functionName md)"
    unfolding annotateFunction_ops_def a by simp
  have c: "last (annotateFunction_ops ct u functionName md) = ClosePage"
    unfolding annotateFunction_ops_def a by simp
  from a b c show ?thesis by blast
qed

theorem annotateFunction_not_found_witness:
  "list_all (\<lambda>r. \<not> matches_root ''d'' r) (roots_of three_roots) \<and>
   after_search Src (find_function three_roots ''d'') =
     [ConsoleError (''Function '' @ [CHR 0x22] @ ''d'' @ [CHR 0x22] @ '' not found in call tree''),
      ClosePage]"
proof -
  have h: "\<forall>r \<in> set (roots_of three_roots). \<not> matches_root ''d'' r"
    by (simp add: roots_of_def three_roots_def leaf_node_def matches_root_def)
  have ne: "roots_of three_roots \<noteq> []"
    by (simp add: roots_of_def three_roots_def)
  from annotateFunction_not_found[OF h, of Src "''u''"] ne h show ?thesis
    by (simp add: list_all_iff)
qed

text \<open>
  Without root nodes no root matches the name, and the error printed is not that the
  function was not found.
\<close>

theorem annotateFunction_no_roots:
  "roots_of (Some []) = [] \<and>
   after_search Asm (find_function (Some []) ''main'') =
     [ConsoleError ''No call tree data available'', ClosePage]"
  by (simp add: roots_of_def find_function_def after_search_def)

section \<open>Exits of the command line\<close>


text \<open>
  An option written with its value attached is not an argument equal to the option, so the
  test \<^verbatim>\<open>process.argv.includes\<close> does not see it: with \<^verbatim>\<open>--calltree 1 --flamegraph=3\<close> two modes
  are specified and the program goes on to launch the browser.
\<close>

lemma cli_attached_value_launches:
  "modes_specified (argv_default\<lparr>arg_calltree := Some 1, arg_flamegraph := Some 3\<rparr>)
     [''node'', ''profiler-cli'', ''u'', ''--calltree'', ''1'', ''--flamegraph=3''] = 2
   \<and> cli_start (argv_default\<lparr>arg_calltree := Some 1, arg_flamegraph := Some 3\<rparr>)
       [''node'', ''profiler-cli'', ''u'', ''--calltree'', ''1'', ''--flamegraph=3'']
     = LaunchBrowser (JStr ''https://share.firefox.dev/x'')"
  by (simp add: cli_start_def argv_default_def at_index_def optionCount_def num_val_def
      modes_specified_def option_written_def attached_value_def startsWith_def)




section \<open>One resolution of marker names\<close>

text \<open>
  Claim C10. The three scripts resolve the display name of a marker by the same function of
  the marker and the string table: the marker's name, unless the payload exists and its
  \<^verbatim>\<open>name\<close> is defined; then that value itself when it is not a number, and the string of
  the string table at that index when it is a number.
\<close>

theorem marker_name_resolution:
  "markerName_summary st m = resolved_name st m
   \<and> markerName_pageLoad st m = resolved_name st m
   \<and> markerName_network st m = resolved_name st m"
  by (cases "m_data m"; cases "the (m_data m) ''name''")
     (simp_all add: markerName_summary_def markerName_pageLoad_def markerName_network_def
        resolved_name_def)

theorem marker_name_resolution_witness:
  "markerName_summary table_example (marker_named (JNum 7) 1 2) = JStr ''Navigation::Start''
   \<and> markerName_pageLoad table_example (marker_named (JStr ''Load'') 1 2) = JStr ''Load''
   \<and> markerName_network table_example (marker_plain ''Jank'' 1 2) = JStr ''Jank''"
  using marker_name_resolution[of table_example "marker_named (JNum 7) 1 2"]
    marker_name_resolution[of table_example "marker_named (JStr ''Load'') 1 2"]
    marker_name_resolution[of table_example "marker_plain ''Jank'' 1 2"]
  by (simp add: resolved_name_def marker_named_def marker_plain_def table_example_def)

section \<open>Printing the call paths of a function\<close>






text \<open>
  The paths of a reported function are collected from its root node of the call tree
  downwards, so the stack of every path starts with the function itself and ends with the
  leaf of the tree the path has reached.
\<close>

lemma collectCallPaths_from_root:
  "p \<in> set (collectCallPaths r acc) \<Longrightarrow>
     \<exists>rest. cp_stack p = acc @ the (funcName (the (getNodeData r))) # rest"
proof (induction r acc arbitrary: p rule: collectCallPaths.induct)
  case (1 nd ch currentPath)
  let ?newPath = "currentPath @ [the (funcName (the nd))]"
  from "1.prems" have named: "has_funcName nd"
    by (auto split: if_splits)
  show ?case
  proof (cases "ch = None \<or> ch = Some []")
    case True
    with "1.prems" named have "cp_stack p = ?newPath"
      by (auto simp: Let_def)
    then show ?thesis
      by simp
  next
    case False
    then obtain cs where cs: "ch = Some cs" "cs \<noteq> []"
      by (cases ch) auto
    with "1.prems" named obtain child where
      child: "child \<in> set cs" "p \<in> set (collectCallPaths child ?newPath)"
      by (auto simp: Let_def)
    from "1.IH"[OF _ refl refl refl cs(1) cs(2) child(1) child(2)] named
    obtain rest where "cp_stack p = ?newPath @ the (funcName (the (getNodeData child))) # rest"
      by auto
    then show ?thesis
      by simp
  qed
qed





section \<open>The flamegraph forest\<close>

lemma set_drop_nulls: "set (drop_nulls xs) = {x. Some x \<in> set xs}"
  by (induction xs rule: drop_nulls.induct) auto

lemma buildFlameTree_eq:
  "buildFlameTree m (CallNode nd ch) d =
     (if has_funcName nd \<and> \<not> (case m of None \<Rightarrow> False | Some md \<Rightarrow> md \<le> real d)
      then Some (FlameNode (the (funcName (the nd))) (num_or (self (the nd)) 0)
                   (num_or (nd_total (the nd)) 0)
                   (sort_cmp (\<lambda>a b. fn_totalTime b - fn_totalTime a)
                      (drop_nulls (map (\<lambda>c. buildFlameTree m c (d + 1))
                         (case ch of None \<Rightarrow> [] | Some cs \<Rightarrow> cs)))))
      else None)"
  by (cases ch) (simp_all add: Let_def sort_cmp_Nil)

lemma built_children_sorted:
  "buildFlameTree m n d = Some t \<Longrightarrow> children_sorted t"
proof (induction n arbitrary: d t)
  case (CallNode nd ch)
  let ?cs = "case ch of None \<Rightarrow> [] | Some cs \<Rightarrow> cs"
  let ?kids = "sort_cmp (\<lambda>a b. fn_totalTime b - fn_totalTime a)
                 (drop_nulls (map (\<lambda>c. buildFlameTree m c (d + 1)) ?cs))"
  from CallNode.prems have t: "t = FlameNode (the (funcName (the nd))) (num_or (self (the nd)) 0)
                   (num_or (nd_total (the nd)) 0) ?kids"
    unfolding buildFlameTree_eq by (auto split: if_splits simp del: buildFlameTree.simps)
  have "children_sorted k" if "k \<in> set ?kids" for k
  proof -
    from that obtain c where c: "c \<in> set ?cs" "buildFlameTree m c (d + 1) = Some k"
      by (auto simp: set_sort_cmp set_drop_nulls)
    then obtain cs where "ch = Some cs" "c \<in> set cs"
      by (cases ch) auto
    with CallNode.IH[of cs c "d + 1" k] c(2) show ?thesis
      by simp
  qed
  then show ?case
    unfolding t by (simp add: list_all_iff sort_desc_sorted)
qed

lemma built_depth:
  "buildFlameTree (Some md) n d = Some t \<Longrightarrow> md \<le> real (d + k) \<Longrightarrow> nodes_at k t = []"
proof (induction n arbitrary: d t k)
  case (CallNode nd ch)
  let ?cs = "case ch of None \<Rightarrow> [] | Some cs \<Rightarrow> cs"
  let ?kids = "sort_cmp (\<lambda>a b. fn_totalTime b - fn_totalTime a)
                 (drop_nulls (map (\<lambda>c. buildFlameTree (Some md) c (d + 1)) ?cs))"
  from CallNode.prems(1) have t: "t = FlameNode (the (funcName (the nd))) (num_or (self (the nd)) 0)
                   (num_or (nd_total (the nd)) 0) ?kids" and shallow: "\<not> md \<le> real d"
    unfolding buildFlameTree_eq by (auto split: if_splits simp del: buildFlameTree.simps)
  show ?case
  proof (cases k)
    case 0
    with CallNode.prems(2) shallow show ?thesis
      by simp
  next
    case (Suc k')
    have "nodes_at k' c' = []" if "c' \<in> set ?kids" for c'
    proof -
      from that obtain c where c: "c \<in> set ?cs" "buildFlameTree (Some md) c (d + 1) = Some c'"
        by (auto simp: set_sort_cmp set_drop_nulls)
      then obtain cs where "ch = Some cs" "c \<in> set cs"
        by (cases ch) auto
      with CallNode.IH[of cs c "d + 1" c' k'] c(2) CallNode.prems(2) Suc show ?thesis
        by simp
    qed
    then show ?thesis
      unfolding t Suc by simp
  qed
qed

text \<open>The paths of what a call node is built into, which is nothing when it is left out.\<close>

lemma built_paths:
  "set (case buildFlameTree m n d of None \<Rightarrow> [] | Some t \<Rightarrow> flame_paths t) =
     {p \<in> set (named_paths n). \<forall>md. m = Some md \<longrightarrow> real (d + length p) - 1 < md}"
proof (induction n arbitrary: d)
  case (CallNode nd ch)
  let ?cs = "case ch of None \<Rightarrow> [] | Some cs \<Rightarrow> cs"
  let ?kids = "sort_cmp (\<lambda>a b. fn_totalTime b - fn_totalTime a)
                 (drop_nulls (map (\<lambda>c. buildFlameTree m c (d + 1)) ?cs))"
  let ?ok = "\<lambda>k p. \<forall>md. m = Some md \<longrightarrow> real (k + length p) - 1 < md"
  have IH: "set (case buildFlameTree m c (d + 1) of None \<Rightarrow> [] | Some t \<Rightarrow> flame_paths t) =
              {p \<in> set (named_paths c). ?ok (d + 1) p}" if "c \<in> set ?cs" for c
  proof -
    from that obtain cs where "ch = Some cs" "c \<in> set cs"
      by (cases ch) auto
    then show ?thesis
      using CallNode.IH[of cs c "d + 1"] by simp
  qed
  show ?case
  proof (cases "has_funcName nd")
    case False
    then show ?thesis
      by (simp add: buildFlameTree_eq del: buildFlameTree.simps)
  next
    case named: True
    let ?f = "the (funcName (the nd))"
    have np: "set (named_paths (CallNode nd ch)) =
                insert [?f] ((#) ?f ` (\<Union>c \<in> set ?cs. set (named_paths c)))"
      using named by simp
    show ?thesis
    proof (cases "case m of None \<Rightarrow> False | Some md \<Rightarrow> md \<le> real d")
      case True
      then obtain md where md: "m = Some md" "md \<le> real d"
        by (cases m) auto
      have "\<not> ?ok d p" if "p \<in> set (named_paths (CallNode nd ch))" for p
      proof -
        from that np have "1 \<le> length p"
          by auto
        with md show ?thesis
          by auto
      qed
      with True named show ?thesis
        by (auto simp: buildFlameTree_eq simp del: named_paths.simps buildFlameTree.simps)
    next
      case False
      then have okf: "?ok d [?f]"
        by (cases m) auto
      from False named have b: "buildFlameTree m (CallNode nd ch) d =
          Some (FlameNode ?f (num_or (self (the nd)) 0) (num_or (nd_total (the nd)) 0) ?kids)"
        by (simp add: buildFlameTree_eq del: buildFlameTree.simps)
      have kids: "(\<Union>k \<in> set ?kids. set (flame_paths k)) =
                  (\<Union>c \<in> set ?cs. {p \<in> set (named_paths c). ?ok (d + 1) p})"
      proof -
        have "(\<Union>k \<in> set ?kids. set (flame_paths k)) =
              (\<Union>c \<in> set ?cs. set (case buildFlameTree m c (d + 1) of None \<Rightarrow> []
                                     | Some t \<Rightarrow> flame_paths t))"
          by (auto simp: set_sort_cmp set_drop_nulls split: option.splits)
        also have "\<dots> = (\<Union>c \<in> set ?cs. {p \<in> set (named_paths c). ?ok (d + 1) p})"
          using IH by simp
        finally show ?thesis .
      qed
      have "set (flame_paths (FlameNode ?f (num_or (self (the nd)) 0)
                   (num_or (nd_total (the nd)) 0) ?kids)) =
            insert [?f] ((#) ?f ` (\<Union>k \<in> set ?kids. set (flame_paths k)))"
        by simp
      also have "\<dots> = insert [?f] ((#) ?f `
                   (\<Union>c \<in> set ?cs. {p \<in> set (named_paths c). ?ok (d + 1) p}))"
        unfolding kids ..
      also have "\<dots> = {p \<in> set (named_paths (CallNode nd ch)). ?ok d p}"
      proof -
        define S where "S = (\<Union>c \<in> set ?cs. set (named_paths c))"
        have shift: "?ok d (?f # q) = ?ok (d + 1) q" for q
          by (simp add: algebra_simps)
        have un: "(\<Union>c \<in> set ?cs. {p \<in> set (named_paths c). ?ok (d + 1) p}) =
                  {p \<in> S. ?ok (d + 1) p}"
          unfolding S_def by blast
        have "insert [?f] ((#) ?f ` {p \<in> S. ?ok (d + 1) p}) =
              {p \<in> insert [?f] ((#) ?f ` S). ?ok d p}"
          using okf shift by auto
        then show ?thesis
          unfolding np un S_def .
      qed
      finally show ?thesis
        unfolding b by simp
    qed
  qed
qed

lemma getFlamegraphData_eq:
  "getFlamegraphData ct m =
     sort_cmp (\<lambda>a b. fn_totalTime b - fn_totalTime a)
       (drop_nulls (map (\<lambda>r. buildFlameTree m r 0) (roots_of ct)))"
  by (cases ct) (simp_all add: getFlamegraphData_def roots_of_def sort_cmp_Nil)

lemma flame_root_built:
  "t \<in> set (getFlamegraphData ct m) \<Longrightarrow> \<exists>r \<in> set (roots_of ct). buildFlameTree m r 0 = Some t"
  by (auto simp: getFlamegraphData_eq set_sort_cmp set_drop_nulls)

text \<open>
  Claim C3. In the forest \<^verbatim>\<open>getFlamegraphData\<close> returns every node has its children in
  descending order of total time, and so has the list of roots; when \<^verbatim>\<open>maxDepth\<close> is a number
  there is no node at a depth greater than or equal to it; and the paths of names from a
  root of the forest to its nodes are the paths of the call tree that lead from a root
  through nodes that all have a function name, down to the depth allowed: a node without
  a function name is left out with everything below it.
\<close>

theorem getFlamegraphData_forest:
  "list_all children_sorted (getFlamegraphData ct maxDepth)
   \<and> sorted_wrt (\<lambda>a b. fn_totalTime b \<le> fn_totalTime a) (getFlamegraphData ct maxDepth)
   \<and> (\<forall>md k. maxDepth = Some md \<longrightarrow> md \<le> real k \<longrightarrow>
         concat (map (nodes_at k) (getFlamegraphData ct maxDepth)) = [])
   \<and> set (concat (map flame_paths (getFlamegraphData ct maxDepth))) =
       {p \<in> set (concat (map named_paths (roots_of ct))).
          \<forall>md. maxDepth = Some md \<longrightarrow> real (length p) - 1 < md}"
proof -
  have a: "list_all children_sorted (getFlamegraphData ct maxDepth)"
    unfolding list_all_iff using flame_root_built built_children_sorted by blast
  have b: "sorted_wrt (\<lambda>a b. fn_totalTime b \<le> fn_totalTime a) (getFlamegraphData ct maxDepth)"
    unfolding getFlamegraphData_eq by (rule sort_desc_sorted)
  have c: "concat (map (nodes_at k) (getFlamegraphData ct maxDepth)) = []"
    if "maxDepth = Some md" "md \<le> real k" for md k
  proof -
    have "nodes_at k t = []" if "t \<in> set (getFlamegraphData ct maxDepth)" for t
    proof -
      from flame_root_built[OF that] obtain r where "buildFlameTree maxDepth r 0 = Some t"
        by blast
      with \<open>maxDepth = Some md\<close> \<open>md \<le> real k\<close> built_depth[of md r 0 t k] show ?thesis
        by simp
    qed
    then show ?thesis
      by simp
  qed
  have "set (concat (map flame_paths (getFlamegraphData ct maxDepth))) =
        (\<Union>r \<in> set (roots_of ct).
           set (case buildFlameTree maxDepth r 0 of None \<Rightarrow> [] | Some t \<Rightarrow> flame_paths t))"
    unfolding getFlamegraphData_eq
    by (auto simp: set_sort_cmp set_drop_nulls split: option.splits)
  also have "\<dots> = (\<Union>r \<in> set (roots_of ct).
           {p \<in> set (named_paths r). \<forall>md. maxDepth = Some md \<longrightarrow> real (0 + length p) - 1 < md})"
    unfolding built_paths ..
  also have "\<dots> = {p \<in> set (concat (map named_paths (roots_of ct))).
          \<forall>md. maxDepth = Some md \<longrightarrow> real (length p) - 1 < md}"
    by auto
  finally have d: "set (concat (map flame_paths (getFlamegraphData ct maxDepth))) =
       {p \<in> set (concat (map named_paths (roots_of ct))).
          \<forall>md. maxDepth = Some md \<longrightarrow> real (length p) - 1 < md}" .
  from a b c d show ?thesis
    by blast
qed

theorem getFlamegraphData_forest_witness:
  "map fn_name (getFlamegraphData flame_example (Some 2)) = [''idle'', ''main'']
   \<and> map (map fn_name \<circ> children) (getFlamegraphData flame_example (Some 2)) = [[], [''b'', ''a'']]
   \<and> list_all children_sorted (getFlamegraphData flame_example (Some 2))
   \<and> concat (map (nodes_at 2) (getFlamegraphData flame_example (Some 2))) = []
   \<and> [''main'', ''x''] \<notin> set (concat (map flame_paths (getFlamegraphData flame_example None)))"
proof -
  have v: "getFlamegraphData flame_example (Some 2) =
      [FlameNode ''idle'' 20 20 [],
       FlameNode ''main'' 0 10 [FlameNode ''b'' 1 8 [], FlameNode ''a'' 2 2 []]]"
    by (simp add: getFlamegraphData_def flame_example_def inner_node_def leaf_node_def
        unnamed_node_def has_funcName_def sort_cmp_def)
  have n: "[''main'', ''x''] \<notin> set (concat (map named_paths (roots_of flame_example)))"
    by (simp add: roots_of_def flame_example_def inner_node_def leaf_node_def
        unnamed_node_def has_funcName_def)
  from getFlamegraphData_forest[of flame_example "Some 2"]
  have "list_all children_sorted (getFlamegraphData flame_example (Some 2))"
    and "concat (map (nodes_at 2) (getFlamegraphData flame_example (Some 2))) = []"
    by simp_all
  moreover from getFlamegraphData_forest[of flame_example None] n
  have "[''main'', ''x''] \<notin> set (concat (map flame_paths (getFlamegraphData flame_example None)))"
    by blast
  ultimately show ?thesis
    unfolding v by simp
qed

section \<open>Marker statistics\<close>

lemma markerName_summary_resolved: "markerName_summary st m = resolved_name st m"
  by (cases "m_data m"; cases "the (m_data m) ''name''")
     (simp_all add: markerName_summary_def resolved_name_def)

lemma markerName_pageLoad_resolved: "markerName_pageLoad st m = resolved_name st m"
  by (cases "m_data m"; cases "the (m_data m) ''name''")
     (simp_all add: markerName_pageLoad_def resolved_name_def)

lemma markerName_network_resolved: "markerName_network st m = resolved_name st m"
  by (cases "m_data m"; cases "the (m_data m) ''name''")
     (simp_all add: markerName_network_def resolved_name_def)

text \<open>The durations a list of entries holds for a key.\<close>

lemma map_of_stats_push:
  "map_of (stats_push k d stats) k' =
     (if k' = k then Some ((case map_of stats k of None \<Rightarrow> [] | Some ds \<Rightarrow> ds) @ [d])
      else map_of stats k')"
  by (induction stats) auto

lemma keys_stats_push:
  "map fst (stats_push k d stats) =
     (if k \<in> set (map fst stats) then map fst stats else map fst stats @ [k])"
  by (induction stats) force+

lemma collect_stats_map_of:
  "map_of (collect_stats st ms stats) k =
     (let new = durations_of st ms k
      in case map_of stats k of
           None \<Rightarrow> (if new = [] then None else Some new)
         | Some ds \<Rightarrow> Some (ds @ new))"
proof (induction ms arbitrary: stats)
  case Nil
  then show ?case
    by (simp add: durations_of_def split: option.splits)
next
  case (Cons m ms)
  show ?case
  proof (cases "has_duration m")
    case False
    then have "collect_stats st (m # ms) stats = collect_stats st ms stats"
      by (cases "m_start m"; cases "m_end m") (auto simp: has_duration_def Let_def)
    moreover from False have "durations_of st (m # ms) k = durations_of st ms k"
      by (simp add: durations_of_def)
    ultimately show ?thesis
      using Cons.IH by simp
  next
    case True
    let ?d = "the (m_end m) - the (m_start m)"
    from True have step: "collect_stats st (m # ms) stats =
        collect_stats st ms (stats_push (resolved_name st m) ?d stats)"
      by (cases "m_start m"; cases "m_end m")
         (auto simp: has_duration_def Let_def markerName_summary_resolved)
    from True have dur: "durations_of st (m # ms) k =
        (if resolved_name st m = k then ?d # durations_of st ms k else durations_of st ms k)"
      by (simp add: durations_of_def)
    show ?thesis
      unfolding step Cons.IH dur
      by (auto simp: map_of_stats_push Let_def split: option.splits)
  qed
qed

lemma collect_stats_distinct:
  "distinct (map fst stats) \<Longrightarrow> distinct (map fst (collect_stats st ms stats))"
proof (induction ms arbitrary: stats)
  case Nil
  then show ?case by simp
next
  case (Cons m ms)
  have "distinct (map fst (stats_push k d stats))" for k d
    using Cons.prems by (simp add: keys_stats_push)
  with Cons show ?case
    by (simp add: Let_def)
qed

lemma foldl_plus_sum_list: "foldl (\<lambda>sum d. sum + d) acc ds = acc + (sum_list ds :: number)"
  by (induction ds arbitrary: acc) simp_all

lemma foldl_min_Min: "foldl min d ds = Min (set (d # ds :: number list))"
proof -
  have "(\<lambda>x s. min s x) = (min :: number \<Rightarrow> number \<Rightarrow> number)"
    by (intro ext) (rule min.commute)
  then show ?thesis
    unfolding Min.set_eq_fold foldl_conv_fold by simp
qed

lemma foldl_max_Max: "foldl max d ds = Max (set (d # ds :: number list))"
proof -
  have "(\<lambda>x s. max s x) = (max :: number \<Rightarrow> number \<Rightarrow> number)"
    by (intro ext) (rule max.commute)
  then show ?thesis
    unfolding Max.set_eq_fold foldl_conv_fold by simp
qed

lemma distinct_map_insort_cmp:
  "distinct (map f (insort_cmp cmp x xs)) = (f x \<notin> f ` set xs \<and> distinct (map f xs))"
  by (induction xs) (auto simp: set_insort_cmp)

lemma distinct_map_sort_cmp: "distinct (map f (sort_cmp cmp xs)) = distinct (map f xs)"
  by (induction xs)
     (simp_all add: sort_cmp_Nil sort_cmp_Cons distinct_map_insort_cmp set_sort_cmp)

lemma summarize_eq:
  "summarize argLimit e = (if argLimit < length (snd e) then Inl RangeError else Inr (summary_of e))"
  by (simp add: summarize_def math_min_def math_max_def summary_of_def)

lemma summarize_all_eq:
  "summarize_all argLimit es acc =
     (if list_ex (\<lambda>e. argLimit < length (snd e)) es then Inl RangeError
      else Inr (acc @ map summary_of es))"
  by (induction es arbitrary: acc) (simp_all add: summarize_eq)

lemma getMarkerSummary_eq:
  "getMarkerSummary st argLimit ms =
     (if list_ex (\<lambda>e. argLimit < length (snd e)) (collect_stats st ms []) then Inl RangeError
      else Inr (sort_cmp (\<lambda>a b. ms_count b - ms_count a)
                  (map summary_of (collect_stats st ms []))))"
  by (simp add: getMarkerSummary_def summarize_all_eq)

lemma summary_of_fields:
  assumes "ds \<noteq> []"
  shows "ms_name (summary_of (k, ds)) = k"
    and "ms_count (summary_of (k, ds)) = real (length ds)"
    and "totalDuration (summary_of (k, ds)) = sum_list ds"
    and "avgDuration (summary_of (k, ds)) = sum_list ds / real (length ds)"
    and "minDuration (summary_of (k, ds)) = Min (set ds)"
    and "maxDuration (summary_of (k, ds)) = Max (set ds)"
proof -
  from assms obtain d rest where ds: "ds = d # rest"
    by (cases ds) auto
  show "ms_name (summary_of (k, ds)) = k"
    and "ms_count (summary_of (k, ds)) = real (length ds)"
    and "totalDuration (summary_of (k, ds)) = sum_list ds"
    and "avgDuration (summary_of (k, ds)) = sum_list ds / real (length ds)"
    by (simp_all add: summary_of_def mk_summary_def Let_def foldl_plus_sum_list)
  show "minDuration (summary_of (k, ds)) = Min (set ds)"
    unfolding ds by (simp add: summary_of_def mk_summary_def Let_def foldl_min_Min del: set_simps)
  show "maxDuration (summary_of (k, ds)) = Max (set ds)"
    unfolding ds by (simp add: summary_of_def mk_summary_def Let_def foldl_max_Max del: set_simps)
qed

lemma collect_stats_entries:
  assumes "(k, ds) \<in> set (collect_stats st ms [])"
  shows "ds = durations_of st ms k \<and> ds \<noteq> []"
proof -
  have "distinct (map fst (collect_stats st ms []))"
    by (rule collect_stats_distinct) simp
  with assms have "map_of (collect_stats st ms []) k = Some ds"
    by simp
  then show ?thesis
    by (simp add: collect_stats_map_of Let_def split: if_splits)
qed

lemma collect_stats_keys:
  "fst ` set (collect_stats st ms []) = resolved_name st ` {m \<in> set ms. has_duration m}"
proof -
  have "(k \<in> fst ` set (collect_stats st ms [])) = (durations_of st ms k \<noteq> [])" for k
  proof -
    have "(k \<in> fst ` set (collect_stats st ms [])) = (map_of (collect_stats st ms []) k \<noteq> None)"
      by (metis domIff dom_map_of_conv_image_fst)
    then show ?thesis
      by (simp add: collect_stats_map_of Let_def)
  qed
  moreover have "(durations_of st ms k \<noteq> []) =
                 (k \<in> resolved_name st ` {m \<in> set ms. has_duration m})" for k
    by (auto simp: durations_of_def filter_empty_conv)
  ultimately show ?thesis
    by blast
qed

text \<open>
  The script returns exactly when no name has more durations than a call takes arguments,
  and stops with a \<^verbatim>\<open>RangeError\<close> otherwise.
\<close>

lemma getMarkerSummary_rejects:
  assumes "argLimit < length (durations_of st ms k)"
  shows "getMarkerSummary st argLimit ms = Inl RangeError"
proof -
  from assms have "durations_of st ms k \<noteq> []"
    by auto
  then have "map_of (collect_stats st ms []) k = Some (durations_of st ms k)"
    by (simp add: collect_stats_map_of Let_def)
  then have "(k, durations_of st ms k) \<in> set (collect_stats st ms [])"
    by (rule map_of_SomeD)
  with assms have "list_ex (\<lambda>e. argLimit < length (snd e)) (collect_stats st ms [])"
    unfolding list_ex_iff by force
  then show ?thesis
    by (simp add: getMarkerSummary_eq)
qed

lemma getMarkerSummary_returns:
  assumes "\<And>k. length (durations_of st ms k) \<le> argLimit"
  shows "getMarkerSummary st argLimit ms =
           Inr (sort_cmp (\<lambda>a b. ms_count b - ms_count a)
                  (map summary_of (collect_stats st ms [])))"
proof -
  have "\<not> argLimit < length (snd e)" if "e \<in> set (collect_stats st ms [])" for e
  proof -
    from that collect_stats_entries[of "fst e" "snd e" st ms]
    have "snd e = durations_of st ms (fst e)"
      by simp
    with assms[of "fst e"] show ?thesis
      by simp
  qed
  then show ?thesis
    by (auto simp: getMarkerSummary_eq list_ex_iff)
qed

text \<open>
  When the script returns, it returns one summary for each name that a marker with a truthy
  start, a truthy end and a positive difference of the two resolves to. The summary of a
  name counts the durations of those markers with that name, and has their sum as total,
  the total divided by the count as average, and their minimum and maximum. The summaries
  are in descending order of count.
\<close>

lemma getMarkerSummary_groups:
  assumes "getMarkerSummary st argLimit ms = Inr result"
  shows "distinct (map ms_name result)
   \<and> set (map ms_name result) = resolved_name st ` {m \<in> set ms. has_duration m}
   \<and> (\<forall>s \<in> set result.
         durations_of st ms (ms_name s) \<noteq> []
         \<and> ms_count s = real (length (durations_of st ms (ms_name s)))
         \<and> totalDuration s = sum_list (durations_of st ms (ms_name s))
         \<and> avgDuration s = totalDuration s / ms_count s
         \<and> minDuration s = Min (set (durations_of st ms (ms_name s)))
         \<and> maxDuration s = Max (set (durations_of st ms (ms_name s))))
   \<and> sorted_wrt (\<lambda>a b. ms_count b \<le> ms_count a) result"
proof -
  let ?stats = "collect_stats st ms []"
  from assms have res: "result = sort_cmp (\<lambda>a b. ms_count b - ms_count a) (map summary_of ?stats)"
    by (simp add: getMarkerSummary_eq split: if_splits)
  have names: "map ms_name (map summary_of ?stats) = map fst ?stats"
    by (simp add: summary_of_def mk_summary_def Let_def)
  have "distinct (map fst ?stats)"
    by (rule collect_stats_distinct) simp
  then have a: "distinct (map ms_name result)"
    unfolding res distinct_map_sort_cmp names .
  have "set (map ms_name result) = set (map ms_name (map summary_of ?stats))"
    unfolding res by (simp add: set_sort_cmp image_image)
  then have b: "set (map ms_name result) = resolved_name st ` {m \<in> set ms. has_duration m}"
    unfolding names by (simp add: collect_stats_keys)
  have c: "durations_of st ms (ms_name s) \<noteq> []
         \<and> ms_count s = real (length (durations_of st ms (ms_name s)))
         \<and> totalDuration s = sum_list (durations_of st ms (ms_name s))
         \<and> avgDuration s = totalDuration s / ms_count s
         \<and> minDuration s = Min (set (durations_of st ms (ms_name s)))
         \<and> maxDuration s = Max (set (durations_of st ms (ms_name s)))"
    if "s \<in> set result" for s
  proof -
    from that obtain k ds where e: "(k, ds) \<in> set ?stats" "s = summary_of (k, ds)"
      by (auto simp: res set_sort_cmp)
    from collect_stats_entries[OF e(1)] have ds: "ds = durations_of st ms k" "ds \<noteq> []"
      by blast+
    from summary_of_fields[OF ds(2), of k] show ?thesis
      unfolding e(2) using ds by simp
  qed
  have d: "sorted_wrt (\<lambda>a b. ms_count b \<le> ms_count a) result"
    unfolding res by (rule sort_desc_sorted)
  from a b c d show ?thesis
    by blast
qed

lemma getMarkerSummary_example:
  "getMarkerSummary table_example 125000 markers_example =
     Inr [\<lparr>ms_name = JStr ''Paint'', ms_count = 3, totalDuration = 7, avgDuration = 7 / 3,
           minDuration = 1, maxDuration = 4\<rparr>,
          \<lparr>ms_name = JStr ''DOMEvent'', ms_count = 1, totalDuration = 5, avgDuration = 5,
           minDuration = 5, maxDuration = 5\<rparr>]"
  by (simp add: getMarkerSummary_def markers_example_def marker_plain_def marker_named_def
      table_example_def markerName_summary_def summarize_def math_min_def math_max_def
      mk_summary_def sort_cmp_def)

lemma durations_of_replicate:
  "durations_of st (replicate n m) (resolved_name st m) =
     (if has_duration m then replicate n (the (m_end m) - the (m_start m)) else [])"
  by (simp add: durations_of_def)

text \<open>
  Claim C2 promises the summaries for every marker list. The script computes the minimum
  and the maximum of a group by passing all its durations as arguments of one call, while
  it sums them with \<^verbatim>\<open>reduce\<close>; for 130000 markers of one name, more than the 125000
  arguments a call takes, it stops with a \<^verbatim>\<open>RangeError\<close> and returns no summary.
\<close>

theorem getMarkerSummary_large_group:
  "getMarkerSummary table_example 125000 (replicate 130000 (marker_plain ''Paint'' 1 3))
     = Inl RangeError"
proof -
  have n: "resolved_name table_example (marker_plain ''Paint'' 1 3) = JStr ''Paint''"
    by (simp add: resolved_name_def marker_plain_def)
  have h: "has_duration (marker_plain ''Paint'' 1 3)"
    by (simp add: has_duration_def marker_plain_def)
  have "length (durations_of table_example (replicate 130000 (marker_plain ''Paint'' 1 3))
          (JStr ''Paint'')) = 130000"
    using durations_of_replicate[of table_example 130000 "marker_plain ''Paint'' 1 3"] n h
    by simp
  then have "125000 < length (durations_of table_example
          (replicate 130000 (marker_plain ''Paint'' 1 3)) (JStr ''Paint''))"
    by simp
  then show ?thesis
    by (rule getMarkerSummary_rejects)
qed

section \<open>Network resources\<close>

lemma insort_cmp_asc_key:
  "insort_cmp (\<lambda>a b. key a - (key b :: number)) x xs = insort_key key x xs"
  by (induction xs) auto

lemma sort_cmp_asc_key:
  "sort_cmp (\<lambda>a b. key a - (key b :: number)) xs = sort_key key xs"
  by (induction xs) (simp_all add: sort_cmp_Nil sort_cmp_Cons insort_cmp_asc_key)

lemma find_navigationStart_eq: "find_navigationStart st ms = navigation_start st ms"
  by (induction ms) (simp_all add: navigation_start_def markerName_network_resolved)

lemma availablePhases_eq:
  "availablePhases dat ps =
     map (\<lambda>p. (p, num_of (dat p))) (filter (\<lambda>p. case dat p of JNum v \<Rightarrow> True | _ \<Rightarrow> False) ps)"
  by (induction ps) (auto simp: num_of_def split: jsval.splits)

text \<open>The phases a list of available timestamps gives, without the accumulators.\<close>

lemma phase_loop_fst:
  "fst (phase_loop aps phs totals) =
     phs @ map (\<lambda>(a, b). \<lparr>label = human_label (fst a), np_duration = snd b - snd a\<rparr>)
             (zip aps (tl aps))"
  by (induction aps phs totals rule: phase_loop.induct) (simp_all add: Let_def)

lemma zip_map_tl: "zip (map f xs) (tl (map f xs)) = map (\<lambda>(a, b). (f a, f b)) (zip xs (tl xs))"
proof -
  have "tl (map f xs) = map f (tl xs)"
    by (cases xs) simp_all
  then show ?thesis
    by (simp only: zip_map_map)
qed

lemma phase_loop_phases_of:
  "fst (phase_loop (availablePhases dat ALL_NETWORK_PHASES_IN_ORDER) [] totals) = phases_of dat"
  unfolding phase_loop_fst availablePhases_eq zip_map_tl phases_of_def present_phases_def
  by (simp add: case_prod_unfold)

lemma plus_phases_Nil: "plus_phases old [] l = old"
  by (simp add: plus_phases_def)

lemma plus_phases_append:
  "plus_phases (plus_phases old ps l) qs l = plus_phases old (ps @ qs) l"
  by (auto simp: plus_phases_def split: option.splits)

lemma map_of_add_total:
  "map_of (add_total l d totals) l' =
     (if l' = l then Some ((case map_of totals l of None \<Rightarrow> 0 | Some v \<Rightarrow> v) + d)
      else map_of totals l')"
  by (induction totals) auto

lemma map_of_add_total_plus:
  "map_of (add_total l d totals) l' =
     plus_phases (map_of totals l') [\<lparr>label = l, np_duration = d\<rparr>] l'"
  by (simp add: map_of_add_total plus_phases_def)

lemma phase_loop_snd:
  "map_of (snd (phase_loop aps phs totals)) l =
     plus_phases (map_of totals l)
       (map (\<lambda>(a, b). \<lparr>label = human_label (fst a), np_duration = snd b - snd a\<rparr>)
          (zip aps (tl aps))) l"
proof (induction aps phs totals rule: phase_loop.induct)
  case (1 prevPhase currPhase rest phs totals)
  show ?case
    using "1.IH"[OF refl refl]
    by (simp add: Let_def map_of_add_total_plus plus_phases_append)
next
  case (2 prevPhase phs totals)
  then show ?case by (simp add: plus_phases_Nil)
next
  case (3 phs totals)
  then show ?case by (simp add: plus_phases_Nil)
qed

lemma phase_loop_totals:
  "map_of (snd (phase_loop (availablePhases dat ALL_NETWORK_PHASES_IN_ORDER) [] totals)) l =
     plus_phases (map_of totals l) (phases_of dat) l"
  using phase_loop_fst[of "availablePhases dat ALL_NETWORK_PHASES_IN_ORDER" "[]" totals]
  unfolding phase_loop_snd phase_loop_phases_of by simp

lemma resource_loop_fst:
  "fst (resource_loop nav ms rs totals) =
     rs @ map (resource_of nav) (filter is_network_stop ms)"
  by (induction ms arbitrary: rs totals)
     (simp_all add: Let_def resource_of_def phase_loop_phases_of)

lemma resource_loop_snd:
  "map_of (snd (resource_loop nav ms rs totals)) l =
     plus_phases (map_of totals l)
       (concat (map (\<lambda>m. phases_of (the (m_data m))) (filter is_network_stop ms))) l"
proof (induction ms arbitrary: rs totals)
  case Nil
  then show ?case by (simp add: plus_phases_Nil)
next
  case (Cons m ms)
  show ?case
  proof (cases "is_network_stop m")
    case True
    then show ?thesis
      by (simp add: Let_def Cons.IH phase_loop_totals plus_phases_append)
  next
    case False
    then show ?thesis
      by (simp add: Cons.IH)
  qed
qed


lemma plus_phases_None:
  "plus_phases None ps l =
     (if list_ex (\<lambda>p. label p = l) ps
      then Some (sum_list (map np_duration (filter (\<lambda>p. label p = l) ps))) else None)"
  by (auto simp: plus_phases_def list_ex_iff filter_empty_conv)

lemma label_sum_Cons:
  "label_sum (r # rs) l =
     sum_list (map np_duration (filter (\<lambda>p. label p = l) (phases r))) + label_sum rs l"
  by (simp add: label_sum_def)

lemma label_sum_insort_key: "label_sum (insort_key k x xs) l = label_sum (x # xs) l"
  by (induction xs) (simp_all add: label_sum_Cons)

lemma label_sum_sort_key: "label_sum (sort_key k xs) l = label_sum xs l"
  by (induction xs) (simp_all add: label_sum_insort_key label_sum_Cons)

lemma label_used_sort_key: "label_used (sort_key k xs) l = label_used xs l"
  by (simp add: label_used_def list_ex_iff)

lemma phases_resource_of: "phases (resource_of nav m) = phases_of (the (m_data m))"
  by (simp add: resource_of_def mk_resource_def Let_def)

lemma startTime_resource_of:
  "startTime (resource_of nav m) =
     num_or (m_start m) 0 - (case nav of None \<Rightarrow> 0 | Some n \<Rightarrow> n)"
  by (cases nav) (simp_all add: resource_of_def mk_resource_def Let_def)

lemma concat_phases_resources:
  "concat (map phases (map (resource_of nav) ms)) =
     concat (map (\<lambda>m. phases_of (the (m_data m))) ms)"
  by (induction ms) (simp_all add: phases_resource_of)

text \<open>
  Claim C4. The resources \<^verbatim>\<open>getNetworkResources\<close> returns are those of the markers whose payload
  has type \<^verbatim>\<open>Network\<close> and status \<^verbatim>\<open>STATUS_STOP\<close>, one for each, sorted by ascending start;
  the start of a resource is the start of its marker, taken relative to the start of the
  first marker named \<^verbatim>\<open>Navigation::Start\<close> when there is one. The phases of a resource are
  the differences of the consecutive timestamps present as numbers, in the fixed order,
  each under the label of the earlier one. The total kept for a label is the sum of the
  durations under that label in the phases of all resources, and there is a total for
  exactly the labels that occur. \<^verbatim>\<open>totalResources\<close> is the number of resources.
\<close>

theorem getNetworkResources_summary:
  "resources (getNetworkResources st ms) =
     sort_key startTime (map (resource_of (navigation_start st ms)) (filter is_network_stop ms))
   \<and> (\<forall>m. phases (resource_of (navigation_start st ms) m) = phases_of (the (m_data m))
          \<and> startTime (resource_of (navigation_start st ms) m) =
              num_or (m_start m) 0
              - (case navigation_start st ms of None \<Rightarrow> 0 | Some nav \<Rightarrow> nav))
   \<and> sorted_wrt (\<lambda>a b. startTime a \<le> startTime b) (resources (getNetworkResources st ms))
   \<and> (\<forall>l. map_of (nr_phaseTotals (getNetworkResources st ms)) l =
          (if label_used (resources (getNetworkResources st ms)) l
           then Some (label_sum (resources (getNetworkResources st ms)) l) else None))
   \<and> totalResources (getNetworkResources st ms) =
       real (length (resources (getNetworkResources st ms)))
   \<and> length (resources (getNetworkResources st ms)) = length (filter is_network_stop ms)"
proof -
  let ?nav = "navigation_start st ms"
  let ?net = "filter is_network_stop ms"
  let ?rs = "map (resource_of ?nav) ?net"
  have a: "resources (getNetworkResources st ms) = sort_key startTime ?rs"
    by (simp add: getNetworkResources_def Let_def find_navigationStart_eq resource_loop_fst
        sort_cmp_asc_key)
  have b: "\<forall>m. phases (resource_of ?nav m) = phases_of (the (m_data m))
          \<and> startTime (resource_of ?nav m) =
              num_or (m_start m) 0 - (case ?nav of None \<Rightarrow> 0 | Some nav \<Rightarrow> nav)"
    by (simp add: phases_resource_of startTime_resource_of)
  have "sorted (map startTime (sort_key startTime ?rs))"
    by (rule sorted_sort_key)
  then have c: "sorted_wrt (\<lambda>a b. startTime a \<le> startTime b)
                  (resources (getNetworkResources st ms))"
    unfolding a by (simp add: sorted_wrt_map del: sorted_sort_key)
  have d: "map_of (nr_phaseTotals (getNetworkResources st ms)) l =
          (if label_used (resources (getNetworkResources st ms)) l
           then Some (label_sum (resources (getNetworkResources st ms)) l) else None)" for l
  proof -
    have "map_of (nr_phaseTotals (getNetworkResources st ms)) l =
          plus_phases None (concat (map phases ?rs)) l"
      by (simp add: getNetworkResources_def Let_def find_navigationStart_eq resource_loop_snd
          concat_phases_resources del: map_map)
    also have "\<dots> = (if label_used ?rs l then Some (label_sum ?rs l) else None)"
      by (auto simp: plus_phases_None label_used_def label_sum_def list_ex_iff)
    finally show ?thesis
      unfolding a by (simp add: label_used_sort_key label_sum_sort_key)
  qed
  have e: "totalResources (getNetworkResources st ms) =
       real (length (resources (getNetworkResources st ms)))"
    by (simp add: getNetworkResources_def Let_def length_sort_cmp)
  have f: "length (resources (getNetworkResources st ms)) = length ?net"
    unfolding a by simp
  from a b c d e f show ?thesis
    by blast
qed

theorem getNetworkResources_summary_witness:
  "map url (resources (getNetworkResources table_example network_example)) =
     [JStr ''https://a.test/'', JStr ''https://a.test/late.js'']
   \<and> map startTime (resources (getNetworkResources table_example network_example)) = [10, 30]
   \<and> map (map np_duration \<circ> phases) (resources (getNetworkResources table_example network_example))
       = [[2, 8], [5, 15]]
   \<and> map_of (nr_phaseTotals (getNetworkResources table_example network_example))
       ''Waiting for socket thread'' = Some 7
   \<and> totalResources (getNetworkResources table_example network_example) = 2"
proof -
  have nav: "navigation_start table_example network_example = Some 10"
    by (simp add: navigation_start_def network_example_def marker_net_def marker_named_def
        marker_plain_def resolved_name_def table_example_def start_of_def)
  have net: "filter is_network_stop network_example =
      [marker_net ''https://a.test/late.js'' 40 45 60, marker_net ''https://a.test/'' 20 22 30]"
    by (simp add: network_example_def marker_net_def marker_named_def marker_plain_def
        is_network_stop_def)
  have p1: "phases_of (the (m_data (marker_net u s rq e))) =
      [\<lparr>label = ''Waiting for socket thread'', np_duration = rq - s\<rparr>,
       \<lparr>label = ''HTTP request and waiting for response'', np_duration = e - rq\<rparr>]" for u s rq e
    by (simp add: phases_of_def present_phases_def ALL_NETWORK_PHASES_IN_ORDER_def
        marker_net_def human_label_def HUMAN_LABEL_FOR_PHASE_def num_of_def)
  have r: "resource_of (Some 10) (marker_net u s rq e) =
      \<lparr>url = JStr u, startTime = (if s = 0 then 0 else s) - 10,
       duration = num_or (Some e) (num_or (Some s) 0) - num_or (Some s) 0,
       status = JStr ''STATUS_STOP'', contentType = JUndefined, res_size = JUndefined,
       httpVersion = JUndefined, cache = JStr ''Unknown'',
       phases = [\<lparr>label = ''Waiting for socket thread'', np_duration = rq - s\<rparr>,
                 \<lparr>label = ''HTTP request and waiting for response'', np_duration = e - rq\<rparr>]\<rparr>"
    if "u \<noteq> []" for u s rq e
    unfolding resource_of_def p1 using that
    by (simp add: mk_resource_def marker_net_def js_or_def Let_def)
  note inst = getNetworkResources_summary[of table_example network_example]
  from inst have A: "resources (getNetworkResources table_example network_example) =
     sort_key startTime (map (resource_of (navigation_start table_example network_example))
       (filter is_network_stop network_example))"
    by blast
  from inst have D: "map_of (nr_phaseTotals (getNetworkResources table_example network_example)) l =
          (if label_used (resources (getNetworkResources table_example network_example)) l
           then Some (label_sum (resources (getNetworkResources table_example network_example)) l)
           else None)" for l
    by blast
  from inst have E: "totalResources (getNetworkResources table_example network_example) =
       real (length (resources (getNetworkResources table_example network_example)))"
    by blast
  have rs: "resources (getNetworkResources table_example network_example) =
      [resource_of (Some 10) (marker_net ''https://a.test/'' 20 22 30),
       resource_of (Some 10) (marker_net ''https://a.test/late.js'' 40 45 60)]"
    unfolding A nav net by (simp add: r)
  have used: "label_used (resources (getNetworkResources table_example network_example))
      ''Waiting for socket thread''"
    unfolding rs by (simp add: label_used_def r)
  have tot: "map_of (nr_phaseTotals (getNetworkResources table_example network_example))
       ''Waiting for socket thread'' = Some 7"
    unfolding D[of "''Waiting for socket thread''"] using used
    unfolding rs by (simp add: label_sum_def r)
  have n: "totalResources (getNetworkResources table_example network_example) = 2"
    unfolding E rs by simp
  show ?thesis
    unfolding rs using tot n by (simp add: r)
qed

section \<open>Page load timing\<close>

lemma startsWith_agree:
  assumes "startsWith n p" and "startsWith n q"
  shows "take (length q) p = take (length p) q"
proof -
  from assms have "take (length q) p = take (length q) (take (length p) n)"
    and "take (length p) q = take (length p) (take (length q) n)"
    by (simp_all add: startsWith_def)
  then show ?thesis
    by (simp add: min.commute)
qed

lemma paint_not_others:
  assumes "startsWith n ''Contentful paint after''"
  shows "n \<noteq> ''Navigation::Start''" and "n \<noteq> ''Load''" and "\<not> startsWith n ''Load ''"
    and "\<not> startsWith n ''Largest contentful paint after''"
proof -
  from assms show "n \<noteq> ''Navigation::Start''" and "n \<noteq> ''Load''"
    by (auto simp: startsWith_def)
  show "\<not> startsWith n ''Load ''"
    using startsWith_agree[OF assms, of "''Load ''"] by auto
  show "\<not> startsWith n ''Largest contentful paint after''"
    using startsWith_agree[OF assms, of "''Largest contentful paint after''"] by auto
qed


lemma largest_not_others:
  assumes "startsWith n ''Largest contentful paint after''"
  shows "n \<noteq> ''Navigation::Start''" and "n \<noteq> ''Load''" and "\<not> startsWith n ''Load ''"
    and "\<not> startsWith n ''Contentful paint after''"
proof -
  from assms show "n \<noteq> ''Navigation::Start''" and "n \<noteq> ''Load''"
    by (auto simp: startsWith_def)
  show "\<not> startsWith n ''Load ''"
    using startsWith_agree[OF assms, of "''Load ''"] by auto
  show "\<not> startsWith n ''Contentful paint after''"
    using startsWith_agree[OF assms, of "''Contentful paint after''"] by auto
qed

lemma literal_names:
  "\<not> startsWith ''Load'' ''Load ''"
  "\<not> startsWith ''Load'' ''Contentful paint after''"
  "\<not> startsWith ''Load'' ''Largest contentful paint after''"
  "\<not> startsWith ''Navigation::Start'' ''Load ''"
  "\<not> startsWith ''Navigation::Start'' ''Contentful paint after''"
  "\<not> startsWith ''Navigation::Start'' ''Largest contentful paint after''"
  "''Load'' \<noteq> ''Navigation::Start''"
  by (simp_all add: startsWith_def)

lemma resource_branch_keeps:
  assumes "resource_branch m s = Inr s'"
  shows "navigationStart s' = navigationStart s" and "load s' = load s"
    and "firstContentfulPaint s' = firstContentfulPaint s"
    and "largestContentfulPaint s' = largestContentfulPaint s"
  using assms unfolding resource_branch_def
  by (auto split: if_splits jsval.splits)

lemma fcp_branch_fields:
  "navigationStart (fcp_branch n s) = navigationStart s"
  "load (fcp_branch n s) = load s"
  "largestContentfulPaint (fcp_branch n s) = largestContentfulPaint s"
  "firstContentfulPaint s = None \<Longrightarrow>
     firstContentfulPaint (fcp_branch n s) = map_option parseFloat_digits (match_after_ms n)"
  by (simp_all add: fcp_branch_def split: option.splits)

lemma lcp_branch_fields:
  "navigationStart (lcp_branch n s) = navigationStart s"
  "load (lcp_branch n s) = load s"
  "firstContentfulPaint (lcp_branch n s) = firstContentfulPaint s"
  "largestContentfulPaint s = None \<Longrightarrow>
     largestContentfulPaint (lcp_branch n s) = map_option parseFloat_digits (match_after_ms n)"
  by (simp_all add: lcp_branch_def split: option.splits)

lemma if_chain:
  assumes "(if c1 then a1 else if c2 then a2 else if c3 then a3 else if c4 then a4
            else if c5 then a5 else a6) = r"
  obtains "c1" "a1 = r"
    | "\<not> c1" "c2" "a2 = r"
    | "\<not> c1" "\<not> c2" "c3" "a3 = r"
    | "\<not> c1" "\<not> c2" "\<not> c3" "c4" "a4 = r"
    | "\<not> c1" "\<not> c2" "\<not> c3" "\<not> c4" "c5" "a5 = r"
    | "\<not> c1" "\<not> c2" "\<not> c3" "\<not> c4" "\<not> c5" "a6 = r"
  using assms by (auto split: if_splits)

text \<open>What one step of the loop does to each of the four variables.\<close>

lemma load_step_navigationStart:
  assumes "load_step n m s = Inr s'"
  shows "navigationStart s' =
           (if navigationStart s = None \<and> n = ''Navigation::Start'' then Some (start_of m)
            else navigationStart s)"
  using assms[unfolded load_step_def]
proof (cases rule: if_chain)
  case 1
  then show ?thesis by auto
next
  case 2
  with resource_branch_keeps(1)[OF 2(3)] show ?thesis by auto
next
  case 3
  then show ?thesis by auto
next
  case 4
  then show ?thesis by (auto simp: fcp_branch_fields)
next
  case 5
  then show ?thesis by (auto simp: lcp_branch_fields)
next
  case 6
  then show ?thesis by auto
qed

lemma load_step_load:
  assumes "load_step n m s = Inr s'"
  shows "load s' = (if load s = None \<and> n = ''Load'' then Some (start_of m) else load s)"
  using assms[unfolded load_step_def]
proof (cases rule: if_chain)
  case 1
  then show ?thesis using literal_names(7) by auto
next
  case 2
  with resource_branch_keeps(2)[OF 2(3)] literal_names(1) show ?thesis by auto
next
  case 3
  then show ?thesis by auto
next
  case 4
  then show ?thesis by (auto simp: fcp_branch_fields)
next
  case 5
  then show ?thesis by (auto simp: lcp_branch_fields)
next
  case 6
  then show ?thesis by auto
qed

lemma load_step_fcp:
  assumes "load_step n m s = Inr s'"
  shows "firstContentfulPaint s' =
           (if firstContentfulPaint s = None \<and> startsWith n ''Contentful paint after''
            then map_option parseFloat_digits (match_after_ms n)
            else firstContentfulPaint s)"
  using assms[unfolded load_step_def]
proof (cases rule: if_chain)
  case 1
  then show ?thesis using literal_names(5) by auto
next
  case 2
  with resource_branch_keeps(3)[OF 2(3)] paint_not_others(3)[of n] show ?thesis by auto
next
  case 3
  then show ?thesis using literal_names(2) by auto
next
  case 4
  then show ?thesis by (auto simp: fcp_branch_fields)
next
  case 5
  then show ?thesis by (auto simp: lcp_branch_fields)
next
  case 6
  then show ?thesis by auto
qed

lemma load_step_lcp:
  assumes "load_step n m s = Inr s'"
  shows "largestContentfulPaint s' =
           (if largestContentfulPaint s = None \<and> startsWith n ''Largest contentful paint after''
            then map_option parseFloat_digits (match_after_ms n)
            else largestContentfulPaint s)"
  using assms[unfolded load_step_def]
proof (cases rule: if_chain)
  case 1
  then show ?thesis using literal_names(6) by auto
next
  case 2
  with resource_branch_keeps(4)[OF 2(3)] largest_not_others(3)[of n] show ?thesis by auto
next
  case 3
  then show ?thesis using literal_names(3) by auto
next
  case 4
  then show ?thesis using paint_not_others(4)[of n] by (auto simp: fcp_branch_fields)
next
  case 5
  then show ?thesis by (auto simp: lcp_branch_fields)
next
  case 6
  then show ?thesis by auto
qed


text \<open>A loop that returns has taken a step for the first marker and gone on from there.\<close>

lemma load_loop_Cons:
  assumes "load_loop st (m # ms) s = Inr s1"
  obtains n s' where "resolved_name st m = JStr n" and "load_step n m s = Inr s'"
    and "load_loop st ms s' = Inr s1"
  using assms
  by (auto simp: markerName_pageLoad_resolved split: jsval.splits sum.splits)

lemma load_loop_navigationStart:
  "load_loop st ms s = Inr s1 \<Longrightarrow>
   navigationStart s1 =
     (case navigationStart s of Some v \<Rightarrow> Some v | None \<Rightarrow> navigation_start st ms)"
proof (induction ms arbitrary: s)
  case Nil
  then show ?case
    by (simp add: navigation_start_def split: option.splits)
next
  case (Cons m ms)
  from Cons.prems obtain n s' where n: "resolved_name st m = JStr n"
    and step: "load_step n m s = Inr s'" and rest: "load_loop st ms s' = Inr s1"
    by (rule load_loop_Cons)
  from Cons.IH[OF rest] load_step_navigationStart[OF step] n show ?case
    by (auto simp: navigation_start_def split: option.splits)
qed

lemma load_loop_load:
  "load_loop st ms s = Inr s1 \<Longrightarrow>
   load s1 =
     (case load s of Some v \<Rightarrow> Some v | None \<Rightarrow> map_option start_of (load_marker st ms))"
proof (induction ms arbitrary: s)
  case Nil
  then show ?case
    by (simp add: load_marker_def split: option.splits)
next
  case (Cons m ms)
  from Cons.prems obtain n s' where n: "resolved_name st m = JStr n"
    and step: "load_step n m s = Inr s'" and rest: "load_loop st ms s' = Inr s1"
    by (rule load_loop_Cons)
  from Cons.IH[OF rest] load_step_load[OF step] n show ?case
    by (auto simp: load_marker_def split: option.splits)
qed

lemma load_loop_fcp:
  "load_loop st ms s = Inr s1 \<Longrightarrow>
   firstContentfulPaint s1 =
     (case firstContentfulPaint s of
        Some v \<Rightarrow> Some v
      | None \<Rightarrow> first_paint st ''Contentful paint after'' ms)"
proof (induction ms arbitrary: s)
  case Nil
  then show ?case
    by (simp split: option.splits)
next
  case (Cons m ms)
  from Cons.prems obtain n s' where n: "resolved_name st m = JStr n"
    and step: "load_step n m s = Inr s'" and rest: "load_loop st ms s' = Inr s1"
    by (rule load_loop_Cons)
  from Cons.IH[OF rest] load_step_fcp[OF step] n show ?case
    by (auto simp: paint_value_def split: option.splits)
qed

lemma load_loop_lcp:
  "load_loop st ms s = Inr s1 \<Longrightarrow>
   largestContentfulPaint s1 =
     (case largestContentfulPaint s of
        Some v \<Rightarrow> Some v
      | None \<Rightarrow> first_paint st ''Largest contentful paint after'' ms)"
proof (induction ms arbitrary: s)
  case Nil
  then show ?case
    by (simp split: option.splits)
next
  case (Cons m ms)
  from Cons.prems obtain n s' where n: "resolved_name st m = JStr n"
    and step: "load_step n m s = Inr s'" and rest: "load_loop st ms s' = Inr s1"
    by (rule load_loop_Cons)
  from Cons.IH[OF rest] load_step_lcp[OF step] n show ?case
    by (auto simp: paint_value_def split: option.splits)
qed

text \<open>
  The script returns when every name resolves to a string and every truthy address of a
  resource is a string.
\<close>

lemma resource_branch_returns:
  "\<exists>u. the (m_data m) ''URI'' = JStr u \<Longrightarrow> \<exists>s'. resource_branch m s = Inr s'"
  by (auto simp: resource_branch_def)

lemma load_step_returns:
  assumes "truthy (the (m_data m) ''URI'') \<Longrightarrow> \<exists>u. the (m_data m) ''URI'' = JStr u"
  shows "\<exists>s'. load_step n m s = Inr s'"
proof -
  define c2 where "c2 = (startsWith n ''Load '' \<and> m_data m \<noteq> None
                          \<and> truthy (the (m_data m) ''URI''))"
  have "c2 \<Longrightarrow> \<exists>s'. resource_branch m s = Inr s'"
    using assms resource_branch_returns[of m s] by (simp add: c2_def)
  then show ?thesis
    unfolding load_step_def c2_def[symmetric] by (cases c2) simp_all
qed

lemma load_loop_returns:
  assumes "\<forall>m \<in> set ms. (\<exists>n. resolved_name st m = JStr n)
             \<and> (truthy (the (m_data m) ''URI'') \<longrightarrow> (\<exists>u. the (m_data m) ''URI'' = JStr u))"
  shows "\<exists>s1. load_loop st ms s = Inr s1"
  using assms
proof (induction ms arbitrary: s)
  case Nil
  then show ?case by simp
next
  case (Cons m ms)
  then obtain n where n: "resolved_name st m = JStr n"
    by auto
  from Cons.prems have "truthy (the (m_data m) ''URI'') \<Longrightarrow> \<exists>u. the (m_data m) ''URI'' = JStr u"
    by simp
  from load_step_returns[OF this, of n s] obtain s' where s': "load_step n m s = Inr s'"
    by blast
  from Cons.IH[of s'] Cons.prems obtain s1 where "load_loop st ms s' = Inr s1"
    by auto
  with n s' show ?case
    by (simp add: markerName_pageLoad_resolved)
qed

lemma getPageLoadSummary_returns:
  assumes "\<forall>m \<in> set ms. (\<exists>n. resolved_name st m = JStr n)
             \<and> (truthy (the (m_data m) ''URI'') \<longrightarrow> (\<exists>u. the (m_data m) ''URI'' = JStr u))"
  shows "\<exists>r. getPageLoadSummary st ms = Inr r"
proof -
  from load_loop_returns[OF assms] obtain s1 where "load_loop st ms initial_loadState = Inr s1"
    by blast
  then show ?thesis
    by (simp add: getPageLoadSummary_def)
qed

text \<open>
  Claim C5. In the summary \<^verbatim>\<open>getPageLoadSummary\<close> returns, \<^verbatim>\<open>navigationStart\<close> is the start of the
  first marker that resolves to the name \<^verbatim>\<open>Navigation::Start\<close>, \<^verbatim>\<open>load\<close> is the start of the
  first marker named \<^verbatim>\<open>Load\<close> minus \<^verbatim>\<open>navigationStart\<close> when both markers are found and
  \<^verbatim>\<open>null\<close> otherwise, and the two paints are the milliseconds parsed from the first marker
  whose name starts with \<^verbatim>\<open>Contentful paint after\<close>, or \<^verbatim>\<open>Largest contentful paint after\<close>, and
  parses; they are \<^verbatim>\<open>null\<close> when no such marker parses.
\<close>

theorem getPageLoadSummary_timing:
  assumes "getPageLoadSummary st ms = Inr r"
  shows "pl_navigationStart r = navigation_start st ms
       \<and> pl_load r = load_time st ms
       \<and> pl_firstContentfulPaint r = first_paint st ''Contentful paint after'' ms
       \<and> pl_largestContentfulPaint r = first_paint st ''Largest contentful paint after'' ms"
proof -
  from assms obtain s where loop: "load_loop st ms initial_loadState = Inr s"
    and r: "r = \<lparr>pl_url = loadUrl s,
               pl_navigationStart = navigationStart s,
               pl_load =
                 (if load s \<noteq> None \<and> navigationStart s \<noteq> None
                  then Some (the (load s) - the (navigationStart s)) else None),
               pl_firstContentfulPaint = firstContentfulPaint s,
               pl_largestContentfulPaint = largestContentfulPaint s\<rparr>"
    by (auto simp: getPageLoadSummary_def split: sum.splits)
  have nav: "navigationStart s = navigation_start st ms"
    using load_loop_navigationStart[OF loop] by (simp add: initial_loadState_def)
  have ld: "load s = map_option start_of (load_marker st ms)"
    using load_loop_load[OF loop] by (simp add: initial_loadState_def)
  have fcp: "firstContentfulPaint s = first_paint st ''Contentful paint after'' ms"
    using load_loop_fcp[OF loop] by (simp add: initial_loadState_def)
  have lcp: "largestContentfulPaint s = first_paint st ''Largest contentful paint after'' ms"
    using load_loop_lcp[OF loop] by (simp add: initial_loadState_def)
  have "pl_load r = load_time st ms"
    unfolding r by (auto simp: nav ld load_time_def split: option.splits)
  with nav fcp lcp show ?thesis
    unfolding r by simp
qed

theorem getPageLoadSummary_timing_witness:
  "getPageLoadSummary table_example pageload_example =
     Inr \<lparr>pl_url = Some ''https://a.test/'', pl_navigationStart = Some 100,
          pl_load = Some 800, pl_firstContentfulPaint = Some 250,
          pl_largestContentfulPaint = Some 400\<rparr>
   \<and> navigation_start table_example pageload_example = Some 100
   \<and> load_time table_example pageload_example = Some 800
   \<and> first_paint table_example ''Contentful paint after'' pageload_example = Some 250
   \<and> first_paint table_example ''Largest contentful paint after'' pageload_example = Some 400"
proof -
  have v: "getPageLoadSummary table_example pageload_example =
     Inr \<lparr>pl_url = Some ''https://a.test/'', pl_navigationStart = Some 100,
          pl_load = Some 800, pl_firstContentfulPaint = Some 250,
          pl_largestContentfulPaint = Some 400\<rparr>"
    by code_simp
  from getPageLoadSummary_timing[OF v] v show ?thesis
    by simp
qed

end
